theory Spec2Isabelle
  imports Main "HOL-Library.AList"
begin

section \<open>Strings, patterns and the external collaborators\<close>

text \<open>
  A Python \<^verbatim>\<open>str\<close> is a sequence of Unicode code points. The two marker glyphs of
  the source channels lie outside ASCII, so a string is a list of code points here.
\<close>

type_synonym codepoint = nat

type_synonym pystr = "codepoint list"

text \<open>\<^verbatim>\<open>str.isspace\<close> on one code point: CPython's whitespace table.\<close>

definition isspace :: "codepoint \<Rightarrow> bool" where
  "isspace c \<longleftrightarrow>
     (9 \<le> c \<and> c \<le> 13) \<or> (28 \<le> c \<and> c \<le> 32) \<or> c = 133 \<or> c = 160 \<or> c = 5760 \<or>
     (8192 \<le> c \<and> c \<le> 8202) \<or> c = 8232 \<or> c = 8233 \<or> c = 8239 \<or> c = 8287 \<or> c = 12288"

text \<open>\<^verbatim>\<open>s.strip()\<close>, \<^verbatim>\<open>s.startswith(p)\<close> and \<^verbatim>\<open>sub in s\<close>.\<close>

definition strip :: "pystr \<Rightarrow> pystr" where
  "strip s = rev (dropWhile isspace (rev (dropWhile isspace s)))"

definition startswith :: "pystr \<Rightarrow> pystr \<Rightarrow> bool" where
  "startswith s p \<longleftrightarrow> take (length p) s = p"

fun contains :: "pystr \<Rightarrow> pystr \<Rightarrow> bool" where
  "contains [] sub = (sub = [])"
| "contains (c # cs) sub = (startswith (c # cs) sub \<or> contains cs sub)"

text \<open>The marker glyphs: U+1F525 (fire) and U+1FA99 (coin).\<close>

definition fire_glyph :: pystr where
  "fire_glyph = [128293]"

definition coin_glyph :: pystr where
  "coin_glyph = [129689]"

text \<open>
  The two compiled patterns.
  \<^verbatim>\<open>solana_address_pattern = re.compile(r'[1-9A-HJ-NP-Za-km-z]{32,44}')\<close> and
  \<^verbatim>\<open>evm_address_pattern = re.compile(r'0x[a-fA-F0-9]{40}')\<close>.
  \<open>match_at pat s\<close> is the length of the match that starts at the head of \<open>s\<close>, if
  there is one: the bounded repetition is greedy, so the Solana pattern takes the
  longest run of class members, at most 44 of them.
\<close>

datatype pattern = Solana_address_pattern | Evm_address_pattern

definition is_base58 :: "codepoint \<Rightarrow> bool" where
  "is_base58 c \<longleftrightarrow>
     (49 \<le> c \<and> c \<le> 57) \<or> (65 \<le> c \<and> c \<le> 72) \<or> (74 \<le> c \<and> c \<le> 78) \<or>
     (80 \<le> c \<and> c \<le> 90) \<or> (97 \<le> c \<and> c \<le> 107) \<or> (109 \<le> c \<and> c \<le> 122)"

definition is_hex :: "codepoint \<Rightarrow> bool" where
  "is_hex c \<longleftrightarrow> (97 \<le> c \<and> c \<le> 102) \<or> (65 \<le> c \<and> c \<le> 70) \<or> (48 \<le> c \<and> c \<le> 57)"

fun match_at :: "pattern \<Rightarrow> pystr \<Rightarrow> nat option" where
  "match_at Solana_address_pattern s =
     (let n = length (takeWhile is_base58 (take 44 s)) in if 32 \<le> n then Some n else None)"
| "match_at Evm_address_pattern s =
     (if take 2 s = [48, 120] \<and> length (take 40 (drop 2 s)) = 40 \<and>
         list_all is_hex (take 40 (drop 2 s))
      then Some 42 else None)"

lemma match_at_pos: "match_at pat s = Some n \<Longrightarrow> 0 < n"
  by (cases pat) (auto simp: Let_def split: if_splits)

text \<open>
  \<^verbatim>\<open>pattern.findall(s)\<close>: the non-overlapping matches, leftmost first; after a match
  the scan goes on behind it, after a failure one code point further.
\<close>

function findall :: "pattern \<Rightarrow> pystr \<Rightarrow> pystr list" where
  "findall pat [] = []"
| "findall pat (c # cs) =
     (case match_at pat (c # cs) of
        None \<Rightarrow> findall pat cs
      | Some n \<Rightarrow> take n (c # cs) # findall pat (drop n (c # cs)))"
  by pat_completeness auto
termination
  by (relation "measure (\<lambda>(pat, s). length s)") (auto dest: match_at_pos)

text \<open>
  Exceptions are values. Every constructor stands for an instance of Python's
  \<^verbatim>\<open>Exception\<close> class, which is what \<^verbatim>\<open>except Exception\<close> catches;
  \<^verbatim>\<open>events.StopPropagation\<close> is one of them.
\<close>

datatype exception = StopPropagation | ImportError | ParseError | SendError

text \<open>
  The \<^verbatim>\<open>solders\<close> package is not part of the repository, so it is a parameter: the
  outcome of \<^verbatim>\<open>from solders.pubkey import Pubkey\<close>, which either raises or yields
  \<^verbatim>\<open>Pubkey.from_string\<close>, which in turn either raises or yields a key.
\<close>

type_synonym pubkey = "nat list"

type_synonym solders = "exception + (pystr \<Rightarrow> exception + pubkey)"

text \<open>
  \<^verbatim>\<open>is_valid_solana_address\<close>: the import and the decoding both stand inside the
  \<^verbatim>\<open>try\<close>; the handler turns every exception into \<^verbatim>\<open>False\<close>. The result type
  keeps a branch for a propagated exception, so that its absence is a theorem.
\<close>

definition is_valid_solana_address :: "solders \<Rightarrow> pystr \<Rightarrow> exception + bool" where
  "is_valid_solana_address lib address =
     (case (case lib of
              Inl e \<Rightarrow> Inl e
            | Inr from_string \<Rightarrow>
                (case from_string address of Inl e \<Rightarrow> Inl e | Inr key \<Rightarrow> Inr True)) of
        Inl e \<Rightarrow> Inr False
      | Inr b \<Rightarrow> Inr b)"

section \<open>Messages\<close>

datatype peer = Username string | Chat_id int

definition channel_a_username :: peer where
  "channel_a_username = Username ''testoormdb''"

definition channel_b_username :: peer where
  "channel_b_username = Username ''testoorbnb''"

definition soul_scanner_bot_username :: peer where
  "soul_scanner_bot_username = Username ''soul_scanner_bot''"

definition phanes_bot_username :: peer where
  "phanes_bot_username = Username ''PhanesRedBot''"

definition sol_target_group :: peer where
  "sol_target_group = Chat_id (- 4920907358)"

definition bnb_target_group :: peer where
  "bnb_target_group = Chat_id (- 4982124188)"

text \<open>
  A message entity is a hyperlink with its URL (\<^verbatim>\<open>MessageEntityTextUrl\<close>) or any
  of the other entity classes, which \<^verbatim>\<open>extract_ca\<close> skips.
\<close>

datatype entity = MessageEntityTextUrl pystr | Other_entity

text \<open>
  A \<^verbatim>\<open>NewMessage\<close> event: the chat it arrived in, \<^verbatim>\<open>event.raw_text\<close> and
  \<^verbatim>\<open>event.message.entities\<close>, which is \<^verbatim>\<open>None\<close> or a list.
\<close>

record event =
  chat :: peer
  raw_text :: pystr
  entities :: "entity list option"

section \<open>The address extractor\<close>

definition pattern_of :: "bool \<Rightarrow> pattern" where
  "pattern_of is_bnb_channel =
     (if is_bnb_channel then Evm_address_pattern else Solana_address_pattern)"

text \<open>
  The inner loop \<^verbatim>\<open>for addr in matches\<close>: \<open>Inr (Some addr)\<close> when the loop returns
  \<open>addr\<close>, \<open>Inr None\<close> when it runs to its end, \<open>Inl e\<close> when the validator raises.
  On the BNB channel the validator is not called.
\<close>

fun scan_matches :: "solders \<Rightarrow> bool \<Rightarrow> pystr list \<Rightarrow> exception + pystr option" where
  "scan_matches lib is_bnb_channel [] = Inr None"
| "scan_matches lib is_bnb_channel (addr # matches) =
     (if \<not> is_bnb_channel then
        (case is_valid_solana_address lib addr of
           Inl e \<Rightarrow> Inl e
         | Inr valid \<Rightarrow>
             if valid then Inr (Some addr) else scan_matches lib is_bnb_channel matches)
      else Inr (Some addr))"

text \<open>The outer loop \<^verbatim>\<open>for entity in event.message.entities\<close>.\<close>

fun scan_entities :: "solders \<Rightarrow> bool \<Rightarrow> entity list \<Rightarrow> exception + pystr option" where
  "scan_entities lib is_bnb_channel [] = Inr None"
| "scan_entities lib is_bnb_channel (MessageEntityTextUrl url # es) =
     (case scan_matches lib is_bnb_channel (findall (pattern_of is_bnb_channel) url) of
        Inl e \<Rightarrow> Inl e
      | Inr (Some addr) \<Rightarrow> Inr (Some addr)
      | Inr None \<Rightarrow> scan_entities lib is_bnb_channel es)"
| "scan_entities lib is_bnb_channel (Other_entity # es) = scan_entities lib is_bnb_channel es"

text \<open>
  \<^verbatim>\<open>extract_ca\<close>. The local \<^verbatim>\<open>found_ca\<close> is never assigned after its
  initialisation to \<^verbatim>\<open>None\<close>, so \<^verbatim>\<open>if found_ca: break\<close> never fires and
  \<^verbatim>\<open>if not found_ca\<close> always holds: the raw text is scanned whenever the entity
  scan has not returned. An entity list that is \<^verbatim>\<open>None\<close> or empty is skipped.
\<close>

definition extract_ca :: "solders \<Rightarrow> event \<Rightarrow> bool \<Rightarrow> exception + pystr option" where
  "extract_ca lib ev is_bnb_channel =
     (case (case entities ev of
              None \<Rightarrow> Inr None
            | Some es \<Rightarrow> scan_entities lib is_bnb_channel es) of
        Inl e \<Rightarrow> Inl e
      | Inr (Some addr) \<Rightarrow> Inr (Some addr)
      | Inr None \<Rightarrow>
          scan_matches lib is_bnb_channel (findall (pattern_of is_bnb_channel) (raw_text ev)))"

subsection \<open>The extractor as the specification words it\<close>

text \<open>
  The specification's \<open>Extract\<close>: the hyperlink URLs in their order, then the raw text;
  in each the regex matches from left to right; the first match that passes the chain's
  validator wins.
\<close>

definition passes_validator :: "solders \<Rightarrow> bool \<Rightarrow> pystr \<Rightarrow> bool" where
  "passes_validator lib is_bnb_channel addr \<longleftrightarrow>
     (if is_bnb_channel then True
      else (case lib of
              Inl e \<Rightarrow> False
            | Inr from_string \<Rightarrow> (case from_string addr of Inl e \<Rightarrow> False | Inr key \<Rightarrow> True)))"

definition hyperlink_urls :: "event \<Rightarrow> pystr list" where
  "hyperlink_urls ev =
     (case entities ev of
        None \<Rightarrow> []
      | Some es \<Rightarrow>
          concat (map (\<lambda>e. case e of MessageEntityTextUrl url \<Rightarrow> [url] | Other_entity \<Rightarrow> []) es))"

definition first_valid_match :: "solders \<Rightarrow> bool \<Rightarrow> pystr \<Rightarrow> pystr option" where
  "first_valid_match lib is_bnb_channel txt =
     find (passes_validator lib is_bnb_channel) (findall (pattern_of is_bnb_channel) txt)"

fun first_in_urls :: "solders \<Rightarrow> bool \<Rightarrow> pystr list \<Rightarrow> pystr option" where
  "first_in_urls lib is_bnb_channel [] = None"
| "first_in_urls lib is_bnb_channel (url # urls) =
     (case first_valid_match lib is_bnb_channel url of
        Some addr \<Rightarrow> Some addr
      | None \<Rightarrow> first_in_urls lib is_bnb_channel urls)"

definition Extract :: "solders \<Rightarrow> event \<Rightarrow> bool \<Rightarrow> pystr option" where
  "Extract lib ev is_bnb_channel =
     (case first_in_urls lib is_bnb_channel (hyperlink_urls ev) of
        Some addr \<Rightarrow> Some addr
      | None \<Rightarrow> first_valid_match lib is_bnb_channel (raw_text ev))"

section \<open>The pipeline state and the handlers\<close>

text \<open>
  The values of \<^verbatim>\<open>pending_ca_for_analysis\<close>, one constructor per string constant:
  \<^verbatim>\<open>'a_soul_scanner'\<close>, \<^verbatim>\<open>'a_waiting_for_th_response'\<close>,
  \<^verbatim>\<open>'a_waiting_for_tt_response'\<close>, \<^verbatim>\<open>'b_waiting_for_response'\<close> and
  \<^verbatim>\<open>'b_waiting_for_tt_response'\<close>. In the specification's words these are
  SentToScanner, AwaitingStepOneReply and AwaitingStepTwoReply of the Solana chain and
  AwaitingStepOneReply and AwaitingStepTwoReply of the BNB chain; Detected is the moment
  before the entry is stored, Forward the moment it is deleted.
\<close>

datatype pipeline_state =
  A_soul_scanner
| A_waiting_for_th_response
| A_waiting_for_tt_response
| B_waiting_for_response
| B_waiting_for_tt_response

text \<open>
  The dictionary \<^verbatim>\<open>pending_ca_for_analysis\<close>. A Python dictionary iterates in
  insertion order and the handlers take the first entry that fits, so it is an
  association list: \<open>AList.update\<close> overwrites a key in place and appends a new one,
  \<open>AList.delete\<close> is \<^verbatim>\<open>del\<close>. Its keys are distinct.
\<close>

type_synonym pending = "(pystr \<times> pipeline_state) list"

definition is_pending :: "pystr \<Rightarrow> pending \<Rightarrow> bool" where
  "is_pending ca pending_ca_for_analysis \<longleftrightarrow> ca \<in> fst ` set pending_ca_for_analysis"

text \<open>
  The loop \<^verbatim>\<open>for ca, state in pending_ca_for_analysis.items(): if ...: found_ca = ca; break\<close>
  followed by \<^verbatim>\<open>if not found_ca: return\<close>: the first key that fits, and nothing when
  that key is the empty string, which Python takes for false.
\<close>

definition first_key :: "(pystr \<Rightarrow> pipeline_state \<Rightarrow> bool) \<Rightarrow> pending \<Rightarrow> pystr option" where
  "first_key fits pending_ca_for_analysis =
     (case find (\<lambda>(ca, state). fits ca state) pending_ca_for_analysis of
        None \<Rightarrow> None
      | Some (ca, state) \<Rightarrow> if ca = [] then None else Some ca)"

text \<open>
  What a handler does besides changing the dictionary: calls of
  \<^verbatim>\<open>client.send_message\<close> and of \<^verbatim>\<open>logging\<close>, in their order. Of a log record
  only the level is kept.
\<close>

datatype level = INFO | WARNING | ERROR

datatype effect = Send_message peer pystr | Log level

text \<open>
  The network is a parameter: \<open>delivers peer text\<close> says whether this
  \<^verbatim>\<open>send_message\<close> call returns; otherwise it raises.
\<close>

type_synonym network = "peer \<Rightarrow> pystr \<Rightarrow> bool"

definition send_message :: "network \<Rightarrow> peer \<Rightarrow> pystr \<Rightarrow> exception option" where
  "send_message delivers peer text = (if delivers peer text then None else Some SendError)"

text \<open>
  A handler run yields how it ended (\<open>None\<close>: it returned; \<open>Some e\<close>: it raised \<open>e\<close>),
  the dictionary afterwards and its effects.
\<close>

type_synonym run = "exception option \<times> pending \<times> effect list"

definition th_command :: "pystr \<Rightarrow> pystr" where
  "th_command ca = [47, 116, 104, 32] @ ca"

definition tt_command :: "pystr \<Rightarrow> pystr" where
  "tt_command ca = [47, 116, 116, 32] @ ca"

subsection \<open>Pipeline A: Solana\<close>

definition sol_handler :: "solders \<Rightarrow> network \<Rightarrow> event \<Rightarrow> pending \<Rightarrow> run" where
  "sol_handler lib delivers ev pending_ca_for_analysis =
     (if \<not> startswith (strip (raw_text ev)) fire_glyph
      then (None, pending_ca_for_analysis, [Log INFO])
      else
        (case extract_ca lib ev False of
           Inl e \<Rightarrow> (Some e, pending_ca_for_analysis, [])
         | Inr None \<Rightarrow> (None, pending_ca_for_analysis, [Log INFO])
         | Inr (Some found_ca_to_send) \<Rightarrow>
             if found_ca_to_send = [] then (None, pending_ca_for_analysis, [Log INFO])
             else if is_pending found_ca_to_send pending_ca_for_analysis
             then (None, pending_ca_for_analysis, [Log WARNING])
             else
               (send_message delivers soul_scanner_bot_username found_ca_to_send,
                AList.update found_ca_to_send A_soul_scanner pending_ca_for_analysis,
                [Log INFO, Send_message soul_scanner_bot_username found_ca_to_send])))"

definition sol_soul_scanner_handler :: "network \<Rightarrow> event \<Rightarrow> pending \<Rightarrow> run" where
  "sol_soul_scanner_handler delivers ev pending_ca_for_analysis =
     (case first_key (\<lambda>ca state. state = A_soul_scanner \<and> contains (raw_text ev) ca)
             pending_ca_for_analysis of
        None \<Rightarrow> (None, pending_ca_for_analysis, [])
      | Some found_ca \<Rightarrow>
          (send_message delivers phanes_bot_username (th_command found_ca),
           AList.update found_ca A_waiting_for_th_response pending_ca_for_analysis,
           [Log INFO, Send_message phanes_bot_username (th_command found_ca)]))"

text \<open>
  \<^verbatim>\<open>raise events.StopPropagation\<close> is the last statement: it is reached when the send
  returned; when the send raises, that exception leaves the handler instead.
\<close>

definition sol_phanes_th_response_handler :: "network \<Rightarrow> event \<Rightarrow> pending \<Rightarrow> run" where
  "sol_phanes_th_response_handler delivers ev pending_ca_for_analysis =
     (case first_key (\<lambda>ca state. state = A_waiting_for_th_response) pending_ca_for_analysis of
        None \<Rightarrow> (None, pending_ca_for_analysis, [])
      | Some found_ca \<Rightarrow>
          ((case send_message delivers phanes_bot_username (tt_command found_ca) of
              Some e \<Rightarrow> Some e
            | None \<Rightarrow> Some StopPropagation),
           AList.update found_ca A_waiting_for_tt_response pending_ca_for_analysis,
           [Log INFO, Send_message phanes_bot_username (tt_command found_ca)]))"

text \<open>
  The forward stands in \<^verbatim>\<open>try ... except Exception\<close>: a failure is logged as an
  error, a success as information; the \<^verbatim>\<open>del\<close> follows in both cases.
\<close>

definition sol_phanes_tt_response_handler :: "network \<Rightarrow> event \<Rightarrow> pending \<Rightarrow> run" where
  "sol_phanes_tt_response_handler delivers ev pending_ca_for_analysis =
     (case first_key (\<lambda>ca state. state = A_waiting_for_tt_response) pending_ca_for_analysis of
        None \<Rightarrow> (None, pending_ca_for_analysis, [])
      | Some found_ca \<Rightarrow>
          (None,
           (if is_pending found_ca pending_ca_for_analysis
            then AList.delete found_ca pending_ca_for_analysis
            else pending_ca_for_analysis),
           [Log INFO, Send_message sol_target_group found_ca,
            (case send_message delivers sol_target_group found_ca of
               None \<Rightarrow> Log INFO
             | Some e \<Rightarrow> Log ERROR)]))"

subsection \<open>Pipeline B: BNB\<close>

definition bnb_handler :: "solders \<Rightarrow> network \<Rightarrow> event \<Rightarrow> pending \<Rightarrow> run" where
  "bnb_handler lib delivers ev pending_ca_for_analysis =
     (if \<not> startswith (strip (raw_text ev)) coin_glyph
      then (None, pending_ca_for_analysis, [Log INFO])
      else
        (case extract_ca lib ev True of
           Inl e \<Rightarrow> (Some e, pending_ca_for_analysis, [])
         | Inr None \<Rightarrow> (None, pending_ca_for_analysis, [Log INFO])
         | Inr (Some found_ca_to_send) \<Rightarrow>
             if found_ca_to_send = [] then (None, pending_ca_for_analysis, [Log INFO])
             else if is_pending found_ca_to_send pending_ca_for_analysis
             then (None, pending_ca_for_analysis, [Log WARNING])
             else
               (send_message delivers phanes_bot_username found_ca_to_send,
                AList.update found_ca_to_send B_waiting_for_response pending_ca_for_analysis,
                [Log INFO, Send_message phanes_bot_username found_ca_to_send])))"

definition bnb_phanes_initial_response_handler :: "network \<Rightarrow> event \<Rightarrow> pending \<Rightarrow> run" where
  "bnb_phanes_initial_response_handler delivers ev pending_ca_for_analysis =
     (case first_key (\<lambda>ca state. state = B_waiting_for_response) pending_ca_for_analysis of
        None \<Rightarrow> (None, pending_ca_for_analysis, [])
      | Some found_ca \<Rightarrow>
          ((case send_message delivers phanes_bot_username (tt_command found_ca) of
              Some e \<Rightarrow> Some e
            | None \<Rightarrow> Some StopPropagation),
           AList.update found_ca B_waiting_for_tt_response pending_ca_for_analysis,
           [Log INFO, Send_message phanes_bot_username (tt_command found_ca)]))"

definition bnb_phanes_tt_response_handler :: "network \<Rightarrow> event \<Rightarrow> pending \<Rightarrow> run" where
  "bnb_phanes_tt_response_handler delivers ev pending_ca_for_analysis =
     (case first_key (\<lambda>ca state. state = B_waiting_for_tt_response) pending_ca_for_analysis of
        None \<Rightarrow> (None, pending_ca_for_analysis, [])
      | Some found_ca \<Rightarrow>
          (None,
           (if is_pending found_ca pending_ca_for_analysis
            then AList.delete found_ca pending_ca_for_analysis
            else pending_ca_for_analysis),
           [Log INFO, Send_message bnb_target_group found_ca,
            (case send_message delivers bnb_target_group found_ca of
               None \<Rightarrow> Log INFO
             | Some e \<Rightarrow> Log ERROR)]))"

subsection \<open>The dispatch of one update\<close>

text \<open>
  The handlers as \<^verbatim>\<open>@client.on(events.NewMessage(chats=...))\<close> registers them, in
  the order of the file.
\<close>

datatype handler =
  Sol_handler
| Sol_soul_scanner_handler
| Sol_phanes_th_response_handler
| Sol_phanes_tt_response_handler
| Bnb_handler
| Bnb_phanes_initial_response_handler
| Bnb_phanes_tt_response_handler

definition event_builders :: "handler list" where
  "event_builders =
     [Sol_handler, Sol_soul_scanner_handler, Sol_phanes_th_response_handler,
      Sol_phanes_tt_response_handler, Bnb_handler, Bnb_phanes_initial_response_handler,
      Bnb_phanes_tt_response_handler]"

fun chats :: "handler \<Rightarrow> peer" where
  "chats Sol_handler = channel_a_username"
| "chats Sol_soul_scanner_handler = soul_scanner_bot_username"
| "chats Sol_phanes_th_response_handler = phanes_bot_username"
| "chats Sol_phanes_tt_response_handler = phanes_bot_username"
| "chats Bnb_handler = channel_b_username"
| "chats Bnb_phanes_initial_response_handler = phanes_bot_username"
| "chats Bnb_phanes_tt_response_handler = phanes_bot_username"

fun callback :: "handler \<Rightarrow> solders \<Rightarrow> network \<Rightarrow> event \<Rightarrow> pending \<Rightarrow> run" where
  "callback Sol_handler lib delivers = sol_handler lib delivers"
| "callback Sol_soul_scanner_handler lib delivers = sol_soul_scanner_handler delivers"
| "callback Sol_phanes_th_response_handler lib delivers = sol_phanes_th_response_handler delivers"
| "callback Sol_phanes_tt_response_handler lib delivers = sol_phanes_tt_response_handler delivers"
| "callback Bnb_handler lib delivers = bnb_handler lib delivers"
| "callback Bnb_phanes_initial_response_handler lib delivers =
     bnb_phanes_initial_response_handler delivers"
| "callback Bnb_phanes_tt_response_handler lib delivers = bnb_phanes_tt_response_handler delivers"

text \<open>
  Telethon's dispatch of one update, which is library code: it walks the registered
  handlers in order, skips those whose chat filter does not fit the event, awaits each
  callback, stops the walk when a callback raises \<^verbatim>\<open>StopPropagation\<close>, and logs any
  other exception and goes on with the next handler. The result is the dictionary
  afterwards and, for every callback that ran, how it ended and its effects. \<open>run_builders\<close>
  is the dispatch of one update while no other task runs in between; the dispatches
  that interleave at an awaited send follow further down.
\<close>

type_synonym trace = "(handler \<times> exception option \<times> effect list) list"

fun run_builders :: "handler list \<Rightarrow> solders \<Rightarrow> network \<Rightarrow> event \<Rightarrow> pending \<Rightarrow> pending \<times> trace" where
  "run_builders [] lib delivers ev pending_ca_for_analysis = (pending_ca_for_analysis, [])"
| "run_builders (h # hs) lib delivers ev pending_ca_for_analysis =
     (if chat ev \<noteq> chats h then run_builders hs lib delivers ev pending_ca_for_analysis
      else
        (case callback h lib delivers ev pending_ca_for_analysis of
           (ended, pending', effects) \<Rightarrow>
             if ended = Some StopPropagation then (pending', [(h, ended, effects)])
             else
               (case run_builders hs lib delivers ev pending' of
                  (pending'', tr) \<Rightarrow> (pending'', (h, ended, effects) # tr))))"

definition dispatch_update :: "solders \<Rightarrow> network \<Rightarrow> event \<Rightarrow> pending \<Rightarrow> pending \<times> trace" where
  "dispatch_update lib delivers ev pending_ca_for_analysis =
     run_builders event_builders lib delivers ev pending_ca_for_analysis"

text \<open>
  The handlers that acted on the event: those whose run has effects. A handler that
  finds no entry at its state returns at once, with none.
\<close>

definition acted :: "trace \<Rightarrow> handler list" where
  "acted tr = map fst (filter (\<lambda>(h, ended, effects). effects \<noteq> []) tr)"

subsection \<open>Handlers that interleave\<close>

text \<open>
  Telethon starts the dispatch of every update as a task of its own, and a handler
  gives way to the other tasks where it awaits \<^verbatim>\<open>client.send_message\<close>. Every
  handler awaits one send at most, so it falls into the part up to the send and the
  part after it. What a handler still has to do when its send is over:
  nothing but return (the two channel handlers and the scanner handler), raise
  \<^verbatim>\<open>StopPropagation\<close> (the two step-one handlers), or log the outcome and delete
  the address it found if that is still a key (the two forwarding handlers). The
  chat filters of the handlers are taken as resolved, so that a dispatch awaits
  nothing between two handlers.
\<close>

datatype awaiting = Then_return | Then_stop_propagation | Then_delete pystr

type_synonym suspended = "peer \<times> pystr \<times> awaiting"

text \<open>
  A handler up to its send: the dictionary and the effects so far, and either how the
  handler ended without sending (\<open>Inl\<close>) or the send it awaits, with peer and text,
  and what follows it (\<open>Inr\<close>). The call of \<^verbatim>\<open>send_message\<close> is among the effects.
\<close>

fun until_send ::
  "handler \<Rightarrow> solders \<Rightarrow> event \<Rightarrow> pending \<Rightarrow>
   pending \<times> effect list \<times> (exception option + suspended)" where
  "until_send Sol_handler lib ev pending_ca_for_analysis =
     (if \<not> startswith (strip (raw_text ev)) fire_glyph
      then (pending_ca_for_analysis, [Log INFO], Inl None)
      else
        (case extract_ca lib ev False of
           Inl e \<Rightarrow> (pending_ca_for_analysis, [], Inl (Some e))
         | Inr None \<Rightarrow> (pending_ca_for_analysis, [Log INFO], Inl None)
         | Inr (Some found_ca_to_send) \<Rightarrow>
             if found_ca_to_send = [] then (pending_ca_for_analysis, [Log INFO], Inl None)
             else if is_pending found_ca_to_send pending_ca_for_analysis
             then (pending_ca_for_analysis, [Log WARNING], Inl None)
             else
               (AList.update found_ca_to_send A_soul_scanner pending_ca_for_analysis,
                [Log INFO, Send_message soul_scanner_bot_username found_ca_to_send],
                Inr (soul_scanner_bot_username, found_ca_to_send, Then_return))))"
| "until_send Sol_soul_scanner_handler lib ev pending_ca_for_analysis =
     (case first_key (\<lambda>ca state. state = A_soul_scanner \<and> contains (raw_text ev) ca)
             pending_ca_for_analysis of
        None \<Rightarrow> (pending_ca_for_analysis, [], Inl None)
      | Some found_ca \<Rightarrow>
          (AList.update found_ca A_waiting_for_th_response pending_ca_for_analysis,
           [Log INFO, Send_message phanes_bot_username (th_command found_ca)],
           Inr (phanes_bot_username, th_command found_ca, Then_return)))"
| "until_send Sol_phanes_th_response_handler lib ev pending_ca_for_analysis =
     (case first_key (\<lambda>ca state. state = A_waiting_for_th_response) pending_ca_for_analysis of
        None \<Rightarrow> (pending_ca_for_analysis, [], Inl None)
      | Some found_ca \<Rightarrow>
          (AList.update found_ca A_waiting_for_tt_response pending_ca_for_analysis,
           [Log INFO, Send_message phanes_bot_username (tt_command found_ca)],
           Inr (phanes_bot_username, tt_command found_ca, Then_stop_propagation)))"
| "until_send Sol_phanes_tt_response_handler lib ev pending_ca_for_analysis =
     (case first_key (\<lambda>ca state. state = A_waiting_for_tt_response) pending_ca_for_analysis of
        None \<Rightarrow> (pending_ca_for_analysis, [], Inl None)
      | Some found_ca \<Rightarrow>
          (pending_ca_for_analysis,
           [Log INFO, Send_message sol_target_group found_ca],
           Inr (sol_target_group, found_ca, Then_delete found_ca)))"
| "until_send Bnb_handler lib ev pending_ca_for_analysis =
     (if \<not> startswith (strip (raw_text ev)) coin_glyph
      then (pending_ca_for_analysis, [Log INFO], Inl None)
      else
        (case extract_ca lib ev True of
           Inl e \<Rightarrow> (pending_ca_for_analysis, [], Inl (Some e))
         | Inr None \<Rightarrow> (pending_ca_for_analysis, [Log INFO], Inl None)
         | Inr (Some found_ca_to_send) \<Rightarrow>
             if found_ca_to_send = [] then (pending_ca_for_analysis, [Log INFO], Inl None)
             else if is_pending found_ca_to_send pending_ca_for_analysis
             then (pending_ca_for_analysis, [Log WARNING], Inl None)
             else
               (AList.update found_ca_to_send B_waiting_for_response pending_ca_for_analysis,
                [Log INFO, Send_message phanes_bot_username found_ca_to_send],
                Inr (phanes_bot_username, found_ca_to_send, Then_return))))"
| "until_send Bnb_phanes_initial_response_handler lib ev pending_ca_for_analysis =
     (case first_key (\<lambda>ca state. state = B_waiting_for_response) pending_ca_for_analysis of
        None \<Rightarrow> (pending_ca_for_analysis, [], Inl None)
      | Some found_ca \<Rightarrow>
          (AList.update found_ca B_waiting_for_tt_response pending_ca_for_analysis,
           [Log INFO, Send_message phanes_bot_username (tt_command found_ca)],
           Inr (phanes_bot_username, tt_command found_ca, Then_stop_propagation)))"
| "until_send Bnb_phanes_tt_response_handler lib ev pending_ca_for_analysis =
     (case first_key (\<lambda>ca state. state = B_waiting_for_tt_response) pending_ca_for_analysis of
        None \<Rightarrow> (pending_ca_for_analysis, [], Inl None)
      | Some found_ca \<Rightarrow>
          (pending_ca_for_analysis,
           [Log INFO, Send_message bnb_target_group found_ca],
           Inr (bnb_target_group, found_ca, Then_delete found_ca)))"

text \<open>
  A handler from its send on, run on the dictionary as it is when the send is over:
  the send returns or raises, and the rest of the handler follows.
\<close>

fun after_send :: "network \<Rightarrow> suspended \<Rightarrow> pending \<Rightarrow> run" where
  "after_send delivers (peer, text, Then_return) pending_ca_for_analysis =
     (send_message delivers peer text, pending_ca_for_analysis, [])"
| "after_send delivers (peer, text, Then_stop_propagation) pending_ca_for_analysis =
     ((case send_message delivers peer text of
         Some e \<Rightarrow> Some e
       | None \<Rightarrow> Some StopPropagation),
      pending_ca_for_analysis, [])"
| "after_send delivers (peer, text, Then_delete found_ca) pending_ca_for_analysis =
     (None,
      (if is_pending found_ca pending_ca_for_analysis
       then AList.delete found_ca pending_ca_for_analysis
       else pending_ca_for_analysis),
      [case send_message delivers peer text of None \<Rightarrow> Log INFO | Some e \<Rightarrow> Log ERROR])"

text \<open>
  A task is the dispatch of one update that is suspended at a send: the handlers still
  to come, the library and the network of the update, its event and the send awaited.
  \<open>dispatch_from\<close> walks the handlers as \<open>run_builders\<close> does, until one of them
  awaits its send or none is left; \<open>resume\<close> takes a suspended task up again. Both
  yield the dictionaries after each handler part they ran, in order, and the task if
  it is suspended again.
\<close>

type_synonym task = "handler list \<times> solders \<times> network \<times> event \<times> suspended"

fun dispatch_from ::
  "handler list \<Rightarrow> solders \<Rightarrow> network \<Rightarrow> event \<Rightarrow> pending \<Rightarrow> pending list \<times> task option" where
  "dispatch_from [] lib delivers ev pending_ca_for_analysis = ([], None)"
| "dispatch_from (h # hs) lib delivers ev pending_ca_for_analysis =
     (if chat ev \<noteq> chats h then dispatch_from hs lib delivers ev pending_ca_for_analysis
      else
        (case until_send h lib ev pending_ca_for_analysis of
           (pending', effects, Inl ended) \<Rightarrow>
             if ended = Some StopPropagation then ([pending'], None)
             else
               (case dispatch_from hs lib delivers ev pending' of
                  (trail, t) \<Rightarrow> (pending' # trail, t))
         | (pending', effects, Inr awaited) \<Rightarrow>
             ([pending'], Some (hs, lib, delivers, ev, awaited))))"

fun resume :: "task \<Rightarrow> pending \<Rightarrow> pending list \<times> task option" where
  "resume (hs, lib, delivers, ev, awaited) pending_ca_for_analysis =
     (case after_send delivers awaited pending_ca_for_analysis of
        (ended, pending', effects) \<Rightarrow>
          if ended = Some StopPropagation then ([pending'], None)
          else
            (case dispatch_from hs lib delivers ev pending' of
               (trail, t) \<Rightarrow> (pending' # trail, t)))"

text \<open>
  The event loop does one of two things at a time: it starts the dispatch of a new
  update, or it takes up one of the suspended tasks, whose send is over. Which one
  comes next is not the program's choice, so a schedule lists it. \<open>interleave\<close> runs a
  schedule from a dictionary and the suspended tasks and lists the dictionaries it goes
  through; \<open>execution\<close> starts with no task suspended. The program starts with the
  empty dictionary.
\<close>

datatype action = Update solders network event | Resume nat

fun act :: "action \<Rightarrow> pending \<Rightarrow> task list \<Rightarrow> pending list \<times> task list" where
  "act (Update lib delivers ev) p tasks =
     (case dispatch_from event_builders lib delivers ev p of
        (trail, None) \<Rightarrow> (trail, tasks)
      | (trail, Some t) \<Rightarrow> (trail, tasks @ [t]))"
| "act (Resume i) p tasks =
     (if i < length tasks then
        (case resume (tasks ! i) p of
           (trail, None) \<Rightarrow> (trail, take i tasks @ drop (Suc i) tasks)
         | (trail, Some t) \<Rightarrow> (trail, tasks[i := t]))
      else ([], tasks))"

fun interleave :: "action list \<Rightarrow> pending \<Rightarrow> task list \<Rightarrow> pending list" where
  "interleave [] p tasks = []"
| "interleave (a # schedule) p tasks =
     (case act a p tasks of
        (trail, tasks') \<Rightarrow> trail @ interleave schedule (last (p # trail)) tasks')"

definition execution :: "action list \<Rightarrow> pending \<Rightarrow> pending list" where
  "execution schedule p = p # interleave schedule p []"

subsection \<open>Reading a run, and the stage sequences\<close>

definition pending_after :: "run \<Rightarrow> pending" where
  "pending_after r = fst (snd r)"

text \<open>
  The one change each handler makes to an entry, read off its body: the state it looks
  for (\<open>None\<close>: the address is not a key) and the state it writes (\<open>None\<close>: the key
  is deleted).
\<close>

fun transition :: "handler \<Rightarrow> pipeline_state option \<times> pipeline_state option" where
  "transition Sol_handler = (None, Some A_soul_scanner)"
| "transition Sol_soul_scanner_handler = (Some A_soul_scanner, Some A_waiting_for_th_response)"
| "transition Sol_phanes_th_response_handler =
     (Some A_waiting_for_th_response, Some A_waiting_for_tt_response)"
| "transition Sol_phanes_tt_response_handler = (Some A_waiting_for_tt_response, None)"
| "transition Bnb_handler = (None, Some B_waiting_for_response)"
| "transition Bnb_phanes_initial_response_handler =
     (Some B_waiting_for_response, Some B_waiting_for_tt_response)"
| "transition Bnb_phanes_tt_response_handler = (Some B_waiting_for_tt_response, None)"

text \<open>
  The two stage sequences of the specification over the stored states: an address that
  is not a key is not yet detected or already forwarded. \<open>follows s t\<close> holds when
  \<open>t\<close> is the stage right after \<open>s\<close> in one of the chains.
\<close>

fun follows :: "pipeline_state option \<Rightarrow> pipeline_state option \<Rightarrow> bool" where
  "follows None (Some A_soul_scanner) = True"
| "follows (Some A_soul_scanner) (Some A_waiting_for_th_response) = True"
| "follows (Some A_waiting_for_th_response) (Some A_waiting_for_tt_response) = True"
| "follows (Some A_waiting_for_tt_response) None = True"
| "follows None (Some B_waiting_for_response) = True"
| "follows (Some B_waiting_for_response) (Some B_waiting_for_tt_response) = True"
| "follows (Some B_waiting_for_tt_response) None = True"
| "follows _ _ = False"

text \<open>
  What every part of a handler does to the entries, whatever runs between the parts:
  an entry stays, moves to the stage right after its own, or is deleted.
\<close>

definition moves_on_or_out :: "pending \<Rightarrow> pending \<Rightarrow> bool" where
  "moves_on_or_out q q' \<longleftrightarrow>
     (\<forall>a. map_of q' a = map_of q a \<or> follows (map_of q a) (map_of q' a) \<or> map_of q' a = None)"

text \<open>
  The reply handlers of the second agent in the order of their registration, cut down
  to those that find an entry: the Solana step-one handler alone when an address waits
  for its step-one reply; otherwise the Solana forwarding handler when an address waits
  for its step-two reply, followed by the BNB step-one handler when a BNB address waits
  for its first reply, or else by the BNB forwarding handler when one waits for its
  second.
\<close>

definition consumers :: "pending \<Rightarrow> handler list" where
  "consumers p =
     (case first_key (\<lambda>ca state. state = A_waiting_for_th_response) p of
        Some ca \<Rightarrow> [Sol_phanes_th_response_handler]
      | None \<Rightarrow>
          (case first_key (\<lambda>ca state. state = A_waiting_for_tt_response) p of
             Some ca \<Rightarrow> [Sol_phanes_tt_response_handler]
           | None \<Rightarrow> []) @
          (case first_key (\<lambda>ca state. state = B_waiting_for_response) p of
             Some ca \<Rightarrow> [Bnb_phanes_initial_response_handler]
           | None \<Rightarrow>
               (case first_key (\<lambda>ca state. state = B_waiting_for_tt_response) p of
                  Some ca \<Rightarrow> [Bnb_phanes_tt_response_handler]
                | None \<Rightarrow> [])))"

subsection \<open>Sample data\<close>

text \<open>
  A string of 32 base58 letters, a second one, and a string of the EVM shape
  (\<^verbatim>\<open>0x\<close> and 40 hex digits); a library that decodes every string, and a network
  that delivers, or loses, every message.
\<close>

definition sol_address_1 :: pystr where
  "sol_address_1 =
     [65, 65, 65, 65, 65, 65, 65, 65, 65, 65, 65, 65, 65, 65, 65, 65,
      65, 65, 65, 65, 65, 65, 65, 65, 65, 65, 65, 65, 65, 65, 65, 65]"

definition sol_address_2 :: pystr where
  "sol_address_2 =
     [66, 66, 66, 66, 66, 66, 66, 66, 66, 66, 66, 66, 66, 66, 66, 66,
      66, 66, 66, 66, 66, 66, 66, 66, 66, 66, 66, 66, 66, 66, 66, 66]"

definition evm_address_1 :: pystr where
  "evm_address_1 =
     [48, 120,
      97, 98, 99, 100, 101, 102, 48, 49, 50, 51, 52, 53, 54, 55, 56, 57, 65, 66, 67, 68,
      97, 98, 99, 100, 101, 102, 48, 49, 50, 51, 52, 53, 54, 55, 56, 57, 65, 66, 67, 68]"

text \<open>
  The address of Solana's system program, thirty-two times the digit \<^verbatim>\<open>1\<close>, which
  decodes to thirty-two zero bytes, and a library that decodes this string alone.
\<close>

definition system_program :: pystr where
  "system_program = replicate 32 49"

definition decodes_system_program :: solders where
  "decodes_system_program =
     Inr (\<lambda>address. if address = system_program then Inr (replicate 32 0) else Inl ParseError)"

definition decodes_all :: solders where
  "decodes_all = Inr (\<lambda>address. Inr [])"

definition delivers_all :: network where
  "delivers_all peer text = True"

definition delivers_none :: network where
  "delivers_none peer text = False"

text \<open>
  A post of that address on the Solana channel, a reply of the scanner bot that holds
  it, and a reply of the second agent.
\<close>

definition post_of_system_program :: event where
  "post_of_system_program =
     \<lparr>chat = channel_a_username, raw_text = 128293 # 32 # system_program,
      entities = None\<rparr>"

definition reply_of_scanner :: event where
  "reply_of_scanner =
     \<lparr>chat = soul_scanner_bot_username, raw_text = system_program, entities = None\<rparr>"

definition reply_of_second_agent :: event where
  "reply_of_second_agent =
     \<lparr>chat = phanes_bot_username, raw_text = [], entities = None\<rparr>"

text \<open>
  A schedule: the address is posted and goes through the scanner reply and the
  step-one reply, each dispatch running to its end. Two replies of the second agent
  then start one forward each, and both forwards are suspended at their sends. The
  first forward is taken up and deletes the address; the address is posted again; then
  the second forward is taken up.
\<close>

definition stale_forward :: "action list" where
  "stale_forward =
     [Update decodes_system_program delivers_all post_of_system_program, Resume 0,
      Update decodes_system_program delivers_all reply_of_scanner, Resume 0,
      Update decodes_system_program delivers_all reply_of_second_agent, Resume 0,
      Update decodes_system_program delivers_all reply_of_second_agent,
      Update decodes_system_program delivers_all reply_of_second_agent,
      Resume 0,
      Update decodes_system_program delivers_all post_of_system_program,
      Resume 0]"

section \<open>Properties of the extractor\<close>

lemma is_valid_solana_address_conv:
  "is_valid_solana_address lib addr = Inr (passes_validator lib False addr)"
  by (simp add: is_valid_solana_address_def passes_validator_def split: sum.splits)

lemma scan_matches_find:
  "scan_matches lib b ms = Inr (find (passes_validator lib b) ms)"
proof (induction ms)
  case Nil
  show ?case by simp
next
  case (Cons m ms)
  show ?case
  proof (cases b)
    case True
    then show ?thesis by (simp add: passes_validator_def)
  next
    case False
    with Cons show ?thesis by (simp add: is_valid_solana_address_conv)
  qed
qed

lemma scan_entities_first_in_urls:
  "scan_entities lib b es =
     Inr (first_in_urls lib b
       (concat (map (\<lambda>e. case e of MessageEntityTextUrl url \<Rightarrow> [url] | Other_entity \<Rightarrow> []) es)))"
proof (induction es)
  case Nil
  show ?case by simp
next
  case (Cons e es)
  then show ?case
    by (cases e) (simp_all add: scan_matches_find first_valid_match_def split: option.splits)
qed

lemma find_SomeD: "find P xs = Some x \<Longrightarrow> x \<in> set xs \<and> P x"
  by (induction xs) (auto split: if_splits)

lemma findall_nonempty: "x \<in> set (findall pat s) \<Longrightarrow> x \<noteq> []"
proof (induction pat s rule: findall.induct)
  case (1 pat)
  then show ?case by simp
next
  case (2 pat c cs)
  show ?case
  proof (cases "match_at pat (c # cs)")
    case None
    with 2 show ?thesis by simp
  next
    case (Some n)
    with match_at_pos have "0 < n" by blast
    then have "take n (c # cs) \<noteq> []" by (cases n) simp_all
    with 2 Some show ?thesis by auto
  qed
qed

lemma first_in_urls_nonempty:
  "first_in_urls lib b urls = Some a \<Longrightarrow> a \<noteq> []"
proof (induction urls)
  case Nil
  then show ?case by simp
next
  case (Cons u urls)
  then show ?case
    by (auto simp: first_valid_match_def split: option.splits dest!: find_SomeD findall_nonempty)
qed

lemma extract_ca_nonempty:
  assumes "extract_ca lib ev b = Inr (Some a)"
  shows "a \<noteq> []"
proof -
  from assms have "Extract lib ev b = Some a"
    by (simp add: extract_ca_def Extract_def hyperlink_urls_def scan_entities_first_in_urls
      scan_matches_find first_valid_match_def split: option.splits)
  then show ?thesis
    by (auto simp: Extract_def first_valid_match_def split: option.splits
        dest!: find_SomeD findall_nonempty first_in_urls_nonempty)
qed

section \<open>Properties of the lookup\<close>

lemma pending_after_simp [simp]: "pending_after (ended, p, effects) = p"
  by (simp add: pending_after_def)

lemma first_key_SomeD:
  assumes "first_key fits p = Some ca"
  shows "ca \<noteq> [] \<and> (\<exists>st. (ca, st) \<in> set p \<and> fits ca st)"
proof -
  from assms obtain st
    where found: "find (\<lambda>(ca, state). fits ca state) p = Some (ca, st)" and nonempty: "ca \<noteq> []"
    by (auto simp: first_key_def split: option.splits if_splits)
  from find_SomeD[OF found] nonempty show ?thesis by auto
qed

lemma first_key_state:
  assumes "first_key (\<lambda>ca state. state = s \<and> Q ca) p = Some ca" and "distinct (map fst p)"
  shows "map_of p ca = Some s \<and> ca \<noteq> [] \<and> Q ca"
  using first_key_SomeD[OF assms(1)] assms(2) by auto

lemma first_key_state':
  assumes "first_key (\<lambda>ca state. state = s) p = Some ca" and "distinct (map fst p)"
  shows "map_of p ca = Some s \<and> ca \<noteq> []"
  using first_key_SomeD[OF assms(1)] assms(2) by auto

lemma first_key_None_run:
  assumes "distinct (map fst p)"
    and "\<forall>k. k = [] \<or> map_of p k \<noteq> Some s"
  shows "first_key (\<lambda>ca state. state = s \<and> Q ca) p = None"
proof (cases "first_key (\<lambda>ca state. state = s \<and> Q ca) p")
  case None
  then show ?thesis .
next
  case (Some ca)
  from first_key_state[OF Some assms(1)] assms(2) show ?thesis by blast
qed

lemma first_key_None_run':
  assumes "distinct (map fst p)"
    and "\<forall>k. k = [] \<or> map_of p k \<noteq> Some s"
  shows "first_key (\<lambda>ca state. state = s) p = None"
  using first_key_None_run[OF assms, of "\<lambda>ca. True"] by simp


lemma is_pending_map_of: "is_pending ca p \<longleftrightarrow> map_of p ca \<noteq> None"
  by (simp add: is_pending_def map_of_eq_None_iff)

lemma one_entry:
  "distinct (map fst p) \<Longrightarrow> is_pending a p \<Longrightarrow>
   length (filter (\<lambda>entry. fst entry = a) p) = 1"
proof (induction p)
  case Nil
  then show ?case by (simp add: is_pending_def)
next
  case (Cons kv p)
  show ?case
  proof (cases "fst kv = a")
    case True
    with Cons.prems have "a \<notin> fst ` set p" by simp
    then have "filter (\<lambda>entry. fst entry = a) p = []"
      by (force simp: filter_empty_conv)
    with True show ?thesis by simp
  next
    case False
    with Cons show ?thesis by (simp add: is_pending_def)
  qed
qed

lemma find_filter_same:
  "(\<forall>x\<in>set xs. P x \<longrightarrow> Q x) \<Longrightarrow> find P (filter Q xs) = find P xs"
  by (induction xs) auto

lemma first_key_delete:
  assumes "map_of p k = Some s'" and "s' \<noteq> s" and "distinct (map fst p)"
  shows "first_key (\<lambda>ca state. state = s) (AList.delete k p) =
         first_key (\<lambda>ca state. state = s) p"
proof -
  have "\<forall>x\<in>set p. (case x of (ca, state) \<Rightarrow> state = s) \<longrightarrow> (case x of (k', v) \<Rightarrow> k \<noteq> k')"
    using assms by (auto dest: map_of_SomeD eq_key_imp_eq_value)
  then have "find (\<lambda>(ca, state). state = s) (filter (\<lambda>(k', v). k \<noteq> k') p) =
    find (\<lambda>(ca, state). state = s) p"
    by (rule find_filter_same)
  then show ?thesis by (simp add: first_key_def AList.delete_eq)
qed

section \<open>One handler run\<close>

lemma sol_handler_transition:
  "map_of (pending_after (sol_handler lib net ev p)) a = map_of p a \<or>
   (map_of p a, map_of (pending_after (sol_handler lib net ev p)) a) = transition Sol_handler"
  by (auto simp: sol_handler_def is_pending_map_of update_conv' split: sum.splits option.splits)

lemma bnb_handler_transition:
  "map_of (pending_after (bnb_handler lib net ev p)) a = map_of p a \<or>
   (map_of p a, map_of (pending_after (bnb_handler lib net ev p)) a) = transition Bnb_handler"
  by (auto simp: bnb_handler_def is_pending_map_of update_conv' split: sum.splits option.splits)

lemma sol_soul_scanner_handler_transition:
  assumes "distinct (map fst p)"
  shows "map_of (pending_after (sol_soul_scanner_handler net ev p)) a = map_of p a \<or>
    (map_of p a, map_of (pending_after (sol_soul_scanner_handler net ev p)) a) =
      transition Sol_soul_scanner_handler"
proof (cases "first_key (\<lambda>ca state. state = A_soul_scanner \<and> contains (raw_text ev) ca) p")
  case None
  then show ?thesis by (simp add: sol_soul_scanner_handler_def)
next
  case (Some ca)
  from first_key_state[OF Some assms] have "map_of p ca = Some A_soul_scanner" by simp
  with Some show ?thesis by (simp add: sol_soul_scanner_handler_def update_conv')
qed

lemma sol_phanes_th_response_handler_transition:
  assumes "distinct (map fst p)"
  shows "map_of (pending_after (sol_phanes_th_response_handler net ev p)) a = map_of p a \<or>
    (map_of p a, map_of (pending_after (sol_phanes_th_response_handler net ev p)) a) =
      transition Sol_phanes_th_response_handler"
proof (cases "first_key (\<lambda>ca state. state = A_waiting_for_th_response) p")
  case None
  then show ?thesis by (simp add: sol_phanes_th_response_handler_def)
next
  case (Some ca)
  from first_key_state'[OF Some assms] have "map_of p ca = Some A_waiting_for_th_response"
    by simp
  with Some show ?thesis by (simp add: sol_phanes_th_response_handler_def update_conv')
qed

lemma sol_phanes_tt_response_handler_transition:
  assumes "distinct (map fst p)"
  shows "map_of (pending_after (sol_phanes_tt_response_handler net ev p)) a = map_of p a \<or>
    (map_of p a, map_of (pending_after (sol_phanes_tt_response_handler net ev p)) a) =
      transition Sol_phanes_tt_response_handler"
proof (cases "first_key (\<lambda>ca state. state = A_waiting_for_tt_response) p")
  case None
  then show ?thesis by (simp add: sol_phanes_tt_response_handler_def)
next
  case (Some ca)
  from first_key_state'[OF Some assms] have "map_of p ca = Some A_waiting_for_tt_response"
    by simp
  with Some show ?thesis by (simp add: sol_phanes_tt_response_handler_def delete_conv')
qed

lemma bnb_phanes_initial_response_handler_transition:
  assumes "distinct (map fst p)"
  shows "map_of (pending_after (bnb_phanes_initial_response_handler net ev p)) a = map_of p a \<or>
    (map_of p a, map_of (pending_after (bnb_phanes_initial_response_handler net ev p)) a) =
      transition Bnb_phanes_initial_response_handler"
proof (cases "first_key (\<lambda>ca state. state = B_waiting_for_response) p")
  case None
  then show ?thesis by (simp add: bnb_phanes_initial_response_handler_def)
next
  case (Some ca)
  from first_key_state'[OF Some assms] have "map_of p ca = Some B_waiting_for_response"
    by simp
  with Some show ?thesis by (simp add: bnb_phanes_initial_response_handler_def update_conv')
qed

lemma bnb_phanes_tt_response_handler_transition:
  assumes "distinct (map fst p)"
  shows "map_of (pending_after (bnb_phanes_tt_response_handler net ev p)) a = map_of p a \<or>
    (map_of p a, map_of (pending_after (bnb_phanes_tt_response_handler net ev p)) a) =
      transition Bnb_phanes_tt_response_handler"
proof (cases "first_key (\<lambda>ca state. state = B_waiting_for_tt_response) p")
  case None
  then show ?thesis by (simp add: bnb_phanes_tt_response_handler_def)
next
  case (Some ca)
  from first_key_state'[OF Some assms] have "map_of p ca = Some B_waiting_for_tt_response"
    by simp
  with Some show ?thesis by (simp add: bnb_phanes_tt_response_handler_def delete_conv')
qed

lemma callback_transition:
  assumes "distinct (map fst p)"
  shows "map_of (pending_after (callback h lib net ev p)) a = map_of p a \<or>
    (map_of p a, map_of (pending_after (callback h lib net ev p)) a) = transition h"
proof (cases h)
  case Sol_handler
  then show ?thesis using sol_handler_transition by simp
next
  case Sol_soul_scanner_handler
  then show ?thesis using sol_soul_scanner_handler_transition[OF assms] by simp
next
  case Sol_phanes_th_response_handler
  then show ?thesis using sol_phanes_th_response_handler_transition[OF assms] by simp
next
  case Sol_phanes_tt_response_handler
  then show ?thesis using sol_phanes_tt_response_handler_transition[OF assms] by simp
next
  case Bnb_handler
  then show ?thesis using bnb_handler_transition by simp
next
  case Bnb_phanes_initial_response_handler
  then show ?thesis using bnb_phanes_initial_response_handler_transition[OF assms] by simp
next
  case Bnb_phanes_tt_response_handler
  then show ?thesis using bnb_phanes_tt_response_handler_transition[OF assms] by simp
qed

lemma follows_transition: "follows (fst (transition h)) (snd (transition h))"
  by (cases h) simp_all

lemma callback_distinct:
  assumes "distinct (map fst p)"
  shows "distinct (map fst (pending_after (callback h lib net ev p)))"
  using assms
  by (cases h)
    (auto simp: sol_handler_def bnb_handler_def sol_soul_scanner_handler_def
      sol_phanes_th_response_handler_def sol_phanes_tt_response_handler_def
      bnb_phanes_initial_response_handler_def bnb_phanes_tt_response_handler_def
      distinct_update distinct_delete split: sum.splits option.splits)

lemma callback_follows:
  assumes "distinct (map fst p)"
  shows "map_of (pending_after (callback h lib net ev p)) a = map_of p a \<or>
    follows (map_of p a) (map_of (pending_after (callback h lib net ev p)) a)"
proof -
  from callback_transition[OF assms, of h lib net ev a]
  show ?thesis
  proof
    assume "map_of (pending_after (callback h lib net ev p)) a = map_of p a"
    then show ?thesis by simp
  next
    assume "(map_of p a, map_of (pending_after (callback h lib net ev p)) a) = transition h"
    then have "map_of p a = fst (transition h)"
      and "map_of (pending_after (callback h lib net ev p)) a = snd (transition h)"
      by (simp_all add: prod_eq_iff)
    with follows_transition[of h] show ?thesis by simp
  qed
qed

lemma sol_phanes_tt_response_handler_keeps:
  assumes "distinct (map fst p)" and "s \<noteq> A_waiting_for_tt_response"
  shows "first_key (\<lambda>ca state. state = s)
           (pending_after (sol_phanes_tt_response_handler delivers ev p)) =
         first_key (\<lambda>ca state. state = s) p"
proof (cases "first_key (\<lambda>ca state. state = A_waiting_for_tt_response) p")
  case None
  then show ?thesis by (simp add: sol_phanes_tt_response_handler_def)
next
  case (Some ca)
  from first_key_state'[OF Some assms(1)]
  have "map_of p ca = Some A_waiting_for_tt_response" by simp
  from first_key_delete[OF this _ assms(1), of s] assms(2) Some show ?thesis
    by (simp add: sol_phanes_tt_response_handler_def)
qed

section \<open>The dispatch of one update\<close>

lemma run_builders_filter:
  "run_builders hs lib net ev p =
   run_builders (filter (\<lambda>h. chats h = chat ev) hs) lib net ev p"
proof (induction hs arbitrary: p)
  case Nil
  show ?case by simp
next
  case (Cons h hs)
  show ?case
  proof (cases "chats h = chat ev")
    case True
    then show ?thesis
      by (simp add: Cons.IH[symmetric] split: prod.splits)
  next
    case False
    then have "chat ev \<noteq> chats h" by auto
    then show ?thesis by (simp add: Cons.IH[symmetric])
  qed
qed

lemma dispatch_channel_a:
  assumes "chat ev = channel_a_username"
  shows "dispatch_update lib net ev p = run_builders [Sol_handler] lib net ev p"
  unfolding dispatch_update_def
  by (subst run_builders_filter)
    (simp add: assms event_builders_def channel_a_username_def channel_b_username_def
      soul_scanner_bot_username_def phanes_bot_username_def)

lemma dispatch_channel_b:
  assumes "chat ev = channel_b_username"
  shows "dispatch_update lib net ev p = run_builders [Bnb_handler] lib net ev p"
  unfolding dispatch_update_def
  by (subst run_builders_filter)
    (simp add: assms event_builders_def channel_a_username_def channel_b_username_def
      soul_scanner_bot_username_def phanes_bot_username_def)

lemma dispatch_soul_scanner:
  assumes "chat ev = soul_scanner_bot_username"
  shows "dispatch_update lib net ev p = run_builders [Sol_soul_scanner_handler] lib net ev p"
  unfolding dispatch_update_def
  by (subst run_builders_filter)
    (simp add: assms event_builders_def channel_a_username_def channel_b_username_def
      soul_scanner_bot_username_def phanes_bot_username_def)

lemma dispatch_phanes:
  assumes "chat ev = phanes_bot_username"
  shows "dispatch_update lib net ev p =
     run_builders [Sol_phanes_th_response_handler, Sol_phanes_tt_response_handler,
       Bnb_phanes_initial_response_handler, Bnb_phanes_tt_response_handler] lib net ev p"
  unfolding dispatch_update_def
  by (subst run_builders_filter)
    (simp add: assms event_builders_def channel_a_username_def channel_b_username_def
      soul_scanner_bot_username_def phanes_bot_username_def)

lemma acted_Nil [simp]: "acted [] = []"
  by (simp add: acted_def)

lemma acted_Cons [simp]:
  "acted ((h, ended, effects) # tr) = (if effects \<noteq> [] then h # acted tr else acted tr)"
  by (simp add: acted_def)

lemma run_builders_returns:
  assumes "chat ev = chats h"
    and "callback h lib delivers ev p = (ended, p', effects)"
    and "ended \<noteq> Some StopPropagation"
  shows "run_builders (h # hs) lib delivers ev p =
    (fst (run_builders hs lib delivers ev p'),
     (h, ended, effects) # snd (run_builders hs lib delivers ev p'))"
  using assms by (simp split: prod.splits)

lemma run_builders_stops:
  assumes "chat ev = chats h"
    and "callback h lib delivers ev p = (Some StopPropagation, p', effects)"
  shows "run_builders (h # hs) lib delivers ev p = (p', [(h, Some StopPropagation, effects)])"
  using assms by simp

lemma run_builders_distinct:
  "distinct (map fst p) \<Longrightarrow> distinct (map fst (fst (run_builders hs lib delivers ev p)))"
proof (induction hs arbitrary: p)
  case Nil
  then show ?case by simp
next
  case (Cons h hs)
  from callback_distinct[OF Cons.prems, of h lib delivers ev]
  have after: "distinct (map fst (pending_after (callback h lib delivers ev p)))" .
  show ?case
  proof (cases "chat ev = chats h")
    case False
    with Cons show ?thesis by simp
  next
    case True
    obtain ended p' effects where run: "callback h lib delivers ev p = (ended, p', effects)"
      by (cases "callback h lib delivers ev p")
    with after have p': "distinct (map fst p')" by simp
    show ?thesis
    proof (cases "ended = Some StopPropagation")
      case True
      with run \<open>chat ev = chats h\<close> p' show ?thesis
        by (simp add: run_builders_stops[where effects=effects and p'=p'])
    next
      case False
      from run_builders_returns[OF \<open>chat ev = chats h\<close> run False, of hs] Cons.IH[OF p']
      show ?thesis by simp
    qed
  qed
qed

lemma run_builders_closed:
  assumes "\<forall>h\<in>set hs. chats h = chat ev \<longrightarrow> fst (transition h) \<in> S \<longrightarrow> snd (transition h) \<in> S"
    and "distinct (map fst p)"
    and "map_of p a \<in> S"
  shows "map_of (fst (run_builders hs lib delivers ev p)) a \<in> S"
  using assms
proof (induction hs arbitrary: p)
  case Nil
  then show ?case by simp
next
  case (Cons h hs)
  from Cons.prems(1)
  have rest: "\<forall>h\<in>set hs. chats h = chat ev \<longrightarrow> fst (transition h) \<in> S \<longrightarrow> snd (transition h) \<in> S"
    by simp
  show ?case
  proof (cases "chat ev = chats h")
    case False
    with Cons.IH[OF rest Cons.prems(2,3)] show ?thesis by simp
  next
    case True
    obtain ended p' effects where run: "callback h lib delivers ev p = (ended, p', effects)"
      by (cases "callback h lib delivers ev p")
    from callback_distinct[OF Cons.prems(2), of h lib delivers ev] run
    have p': "distinct (map fst p')" by simp
    from callback_transition[OF Cons.prems(2), of h lib delivers ev a] run
    have "map_of p' a = map_of p a \<or>
      (map_of p a = fst (transition h) \<and> map_of p' a = snd (transition h))"
      by (simp add: prod_eq_iff)
    with Cons.prems(1,3) True have inS: "map_of p' a \<in> S" by auto
    show ?thesis
    proof (cases "ended = Some StopPropagation")
      case True
      with run \<open>chat ev = chats h\<close> inS show ?thesis
        by (simp add: run_builders_stops[where effects=effects and p'=p'])
    next
      case False
      from run_builders_returns[OF \<open>chat ev = chats h\<close> run False, of hs]
        Cons.IH[OF rest p' inS]
      show ?thesis by simp
    qed
  qed
qed

section \<open>Handlers in two parts and their interleaving\<close>

lemma callback_parts:
  "callback h lib delivers ev p =
     (case until_send h lib ev p of
        (p', effects, Inl ended) \<Rightarrow> (ended, p', effects)
      | (p', effects, Inr awaited) \<Rightarrow>
          (case after_send delivers awaited p' of
             (ended, p'', effects') \<Rightarrow> (ended, p'', effects @ effects')))"
proof (cases h)
  case Sol_handler
  then show ?thesis
    by (simp add: sol_handler_def split: sum.splits option.splits)
next
  case Sol_soul_scanner_handler
  then show ?thesis
    by (simp add: sol_soul_scanner_handler_def split: option.splits)
next
  case Sol_phanes_th_response_handler
  then show ?thesis
    by (simp add: sol_phanes_th_response_handler_def split: option.splits)
next
  case Sol_phanes_tt_response_handler
  then show ?thesis
    by (simp add: sol_phanes_tt_response_handler_def split: option.splits)
next
  case Bnb_handler
  then show ?thesis
    by (simp add: bnb_handler_def split: sum.splits option.splits)
next
  case Bnb_phanes_initial_response_handler
  then show ?thesis
    by (simp add: bnb_phanes_initial_response_handler_def split: option.splits)
next
  case Bnb_phanes_tt_response_handler
  then show ?thesis
    by (simp add: bnb_phanes_tt_response_handler_def split: option.splits)
qed

lemma until_send_distinct:
  assumes "distinct (map fst p)"
  shows "distinct (map fst (fst (until_send h lib ev p)))"
  using assms
  by (cases h) (auto simp: distinct_update split: sum.splits option.splits)

lemma after_send_distinct:
  assumes "distinct (map fst p)"
  shows "distinct (map fst (pending_after (after_send delivers awaited p)))"
proof -
  obtain peer body k where "awaited = (peer, body, k)" by (cases awaited)
  with assms show ?thesis by (cases k) (simp_all add: distinct_delete)
qed

lemma dispatch_from_distinct:
  "distinct (map fst p) \<Longrightarrow>
   list_all (\<lambda>q. distinct (map fst q)) (fst (dispatch_from hs lib delivers ev p))"
proof (induction hs arbitrary: p)
  case Nil
  then show ?case by simp
next
  case (Cons h hs)
  obtain p' effects r where part: "until_send h lib ev p = (p', effects, r)"
    by (cases "until_send h lib ev p")
  with until_send_distinct[OF Cons.prems, of h lib ev] have p': "distinct (map fst p')"
    by simp
  from Cons.IH[OF p'] Cons.IH[OF Cons.prems] part p' show ?case
    by (cases r) (auto split: prod.splits)
qed

lemma resume_distinct:
  assumes "distinct (map fst p)"
  shows "list_all (\<lambda>q. distinct (map fst q)) (fst (resume t p))"
proof -
  obtain hs lib delivers ev awaited where t: "t = (hs, lib, delivers, ev, awaited)"
    by (cases t)
  obtain ended p' effects where part: "after_send delivers awaited p = (ended, p', effects)"
    by (cases "after_send delivers awaited p")
  with after_send_distinct[OF assms, of delivers awaited] have p': "distinct (map fst p')"
    by simp
  from dispatch_from_distinct[OF p', of hs lib delivers ev] t part p' show ?thesis
    by (auto split: prod.splits)
qed

lemma act_distinct:
  assumes "distinct (map fst p)"
  shows "list_all (\<lambda>q. distinct (map fst q)) (fst (act a p tasks))"
proof (cases a)
  case (Update lib delivers ev)
  with dispatch_from_distinct[OF assms, of event_builders lib delivers ev] show ?thesis
    by (auto split: prod.splits option.splits)
next
  case (Resume i)
  with resume_distinct[OF assms, of "tasks ! i"] show ?thesis
    by (auto split: prod.splits option.splits)
qed

lemma last_distinct:
  "distinct (map fst p) \<Longrightarrow> list_all (\<lambda>q. distinct (map fst q)) trail \<Longrightarrow>
   distinct (map fst (last (p # trail)))"
  by (induction trail arbitrary: p) auto

lemma interleave_distinct:
  "distinct (map fst p) \<Longrightarrow>
   list_all (\<lambda>q. distinct (map fst q)) (interleave schedule p tasks)"
proof (induction schedule arbitrary: p tasks)
  case Nil
  then show ?case by simp
next
  case (Cons a schedule)
  obtain trail tasks' where step: "act a p tasks = (trail, tasks')"
    by (cases "act a p tasks")
  with act_distinct[OF Cons.prems, of a tasks]
  have trail: "list_all (\<lambda>q. distinct (map fst q)) trail" by simp
  from last_distinct[OF Cons.prems trail]
  have "list_all (\<lambda>q. distinct (map fst q)) (interleave schedule (last (p # trail)) tasks')"
    by (rule Cons.IH)
  with trail step show ?case by simp
qed

lemma execution_distinct:
  "distinct (map fst p) \<Longrightarrow> list_all (\<lambda>q. distinct (map fst q)) (execution schedule p)"
  by (simp add: execution_def interleave_distinct)

lemma moves_on_or_out_refl [simp]: "moves_on_or_out q q"
  by (simp add: moves_on_or_out_def)

lemma until_send_pending:
  "fst (until_send h lib ev p) = p \<or>
   fst (until_send h lib ev p) = pending_after (callback h lib delivers ev p)"
  by (cases h)
    (auto simp: sol_handler_def bnb_handler_def sol_soul_scanner_handler_def
      sol_phanes_th_response_handler_def bnb_phanes_initial_response_handler_def
      split: sum.splits option.splits)

lemma until_send_moves:
  assumes "distinct (map fst p)"
  shows "moves_on_or_out p (fst (until_send h lib ev p))"
  unfolding moves_on_or_out_def
proof
  fix a
  from until_send_pending[of h lib ev p delivers_all]
    callback_follows[OF assms, of h lib delivers_all ev a]
  show "map_of (fst (until_send h lib ev p)) a = map_of p a \<or>
    follows (map_of p a) (map_of (fst (until_send h lib ev p)) a) \<or>
    map_of (fst (until_send h lib ev p)) a = None"
    by auto
qed

lemma after_send_moves:
  "moves_on_or_out p (pending_after (after_send delivers awaited p))"
proof -
  obtain peer body k where "awaited = (peer, body, k)" by (cases awaited)
  then show ?thesis
    by (cases k) (simp_all add: moves_on_or_out_def delete_conv')
qed

lemma successively_trail:
  "successively R (p # trail) \<Longrightarrow> successively R (last (p # trail) # rest) \<Longrightarrow>
   successively R (p # trail @ rest)"
  by (induction trail arbitrary: p) auto

lemma dispatch_from_moves:
  "distinct (map fst p) \<Longrightarrow>
   successively moves_on_or_out (p # fst (dispatch_from hs lib delivers ev p))"
proof (induction hs arbitrary: p)
  case Nil
  then show ?case by simp
next
  case (Cons h hs)
  obtain p' effects r where part: "until_send h lib ev p = (p', effects, r)"
    by (cases "until_send h lib ev p")
  with until_send_distinct[OF Cons.prems, of h lib ev] have p': "distinct (map fst p')"
    by simp
  from until_send_moves[OF Cons.prems, of h lib ev] part
  have step: "moves_on_or_out p p'" by simp
  from Cons.IH[OF p'] Cons.IH[OF Cons.prems] part step show ?case
    by (cases r) (auto split: prod.splits)
qed

lemma resume_moves:
  assumes "distinct (map fst p)"
  shows "successively moves_on_or_out (p # fst (resume t p))"
proof -
  obtain hs lib delivers ev awaited where t: "t = (hs, lib, delivers, ev, awaited)"
    by (cases t)
  obtain ended p' effects where part: "after_send delivers awaited p = (ended, p', effects)"
    by (cases "after_send delivers awaited p")
  with after_send_distinct[OF assms, of delivers awaited] have p': "distinct (map fst p')"
    by simp
  from after_send_moves[of p delivers awaited] part have "moves_on_or_out p p'" by simp
  with dispatch_from_moves[OF p', of hs lib delivers ev] t part show ?thesis
    by (auto split: prod.splits)
qed

lemma act_moves:
  assumes "distinct (map fst p)"
  shows "successively moves_on_or_out (p # fst (act a p tasks))"
proof (cases a)
  case (Update lib delivers ev)
  with dispatch_from_moves[OF assms, of event_builders lib delivers ev] show ?thesis
    by (auto split: prod.splits option.splits)
next
  case (Resume i)
  with resume_moves[OF assms, of "tasks ! i"] show ?thesis
    by (auto split: prod.splits option.splits)
qed

lemma interleave_moves:
  "distinct (map fst p) \<Longrightarrow>
   successively moves_on_or_out (p # interleave schedule p tasks)"
proof (induction schedule arbitrary: p tasks)
  case Nil
  then show ?case by simp
next
  case (Cons a schedule)
  obtain trail tasks' where step: "act a p tasks = (trail, tasks')"
    by (cases "act a p tasks")
  with act_distinct[OF Cons.prems, of a tasks]
  have trail: "list_all (\<lambda>q. distinct (map fst q)) trail" by simp
  from act_moves[OF Cons.prems, of a tasks] step
  have first: "successively moves_on_or_out (p # trail)" by simp
  from last_distinct[OF Cons.prems trail]
  have "successively moves_on_or_out
    (last (p # trail) # interleave schedule (last (p # trail)) tasks')"
    by (rule Cons.IH)
  from successively_trail[OF first this] step show ?case by simp
qed

lemma execution_moves_on_or_out:
  "successively moves_on_or_out (execution schedule [])"
  unfolding execution_def by (rule interleave_moves) simp

section \<open>The claims\<close>

subsection \<open>The dispatch discipline of the second agent's replies\<close>

lemma bnb_steps_acted_exact:
  assumes "chat ev = phanes_bot_username"
    and "\<forall>ca. delivers phanes_bot_username (tt_command ca)"
  shows "acted (snd (run_builders
      [Bnb_phanes_initial_response_handler, Bnb_phanes_tt_response_handler] lib delivers ev p))
    = (case first_key (\<lambda>ca state. state = B_waiting_for_response) p of
             Some ca \<Rightarrow> [Bnb_phanes_initial_response_handler]
           | None \<Rightarrow>
               (case first_key (\<lambda>ca state. state = B_waiting_for_tt_response) p of
                  Some ca \<Rightarrow> [Bnb_phanes_tt_response_handler]
                | None \<Rightarrow> []))"
  using assms
  by (simp add: bnb_phanes_initial_response_handler_def bnb_phanes_tt_response_handler_def
      send_message_def split: option.splits)

lemma dispatch_phanes_acted:
  assumes "chat ev = phanes_bot_username"
    and "\<forall>ca. delivers phanes_bot_username (tt_command ca)"
    and "distinct (map fst p)"
  shows "acted (snd (dispatch_update lib delivers ev p)) = consumers p"
proof (cases "first_key (\<lambda>ca state. state = A_waiting_for_th_response) p")
  case (Some ca)
  with assms(1,2) show ?thesis
    by (simp add: dispatch_phanes consumers_def sol_phanes_th_response_handler_def
        send_message_def)
next
  case None
  let ?p' = "pending_after (sol_phanes_tt_response_handler delivers ev p)"
  have keep1: "first_key (\<lambda>ca state. state = B_waiting_for_response) ?p' =
        first_key (\<lambda>ca state. state = B_waiting_for_response) p"
    by (rule sol_phanes_tt_response_handler_keeps[OF assms(3)]) simp
  have keep2: "first_key (\<lambda>ca state. state = B_waiting_for_tt_response) ?p' =
        first_key (\<lambda>ca state. state = B_waiting_for_tt_response) p"
    by (rule sol_phanes_tt_response_handler_keeps[OF assms(3)]) simp
  obtain ended effects where tt: "sol_phanes_tt_response_handler delivers ev p =
    (ended, ?p', effects)"
    by (cases "sol_phanes_tt_response_handler delivers ev p") simp
  have ended: "ended = None"
    using tt by (auto simp: sol_phanes_tt_response_handler_def split: option.splits)
  have effects: "effects \<noteq> [] \<longleftrightarrow>
    first_key (\<lambda>ca state. state = A_waiting_for_tt_response) p \<noteq> None"
    using tt by (auto simp: sol_phanes_tt_response_handler_def split: option.splits)
  have th: "sol_phanes_th_response_handler delivers ev p = (None, p, [])"
    using None by (simp add: sol_phanes_th_response_handler_def)
  have th': "callback Sol_phanes_th_response_handler lib delivers ev p = (None, p, [])"
    using th by simp
  have tt': "callback Sol_phanes_tt_response_handler lib delivers ev p = (None, ?p', effects)"
    using tt ended by simp
  have "acted (snd (dispatch_update lib delivers ev p)) =
    (if effects \<noteq> [] then [Sol_phanes_tt_response_handler] else []) @
    acted (snd (run_builders
      [Bnb_phanes_initial_response_handler, Bnb_phanes_tt_response_handler] lib delivers ev ?p'))"
    unfolding dispatch_phanes[OF assms(1)]
    by (simp add: run_builders_returns[OF _ th'] run_builders_returns[OF _ tt'] assms(1)
        del: run_builders.simps callback.simps)
  also have "\<dots> = consumers p"
    unfolding bnb_steps_acted_exact[where delivers=delivers, OF assms(1,2)] keep1 keep2
    using None effects by (auto simp: consumers_def split: option.splits)
  finally show ?thesis .
qed

lemma consumers_cases:
  "consumers p \<in>
    {[], [Sol_phanes_th_response_handler], [Sol_phanes_tt_response_handler],
     [Bnb_phanes_initial_response_handler], [Bnb_phanes_tt_response_handler],
     [Sol_phanes_tt_response_handler, Bnb_phanes_initial_response_handler],
     [Sol_phanes_tt_response_handler, Bnb_phanes_tt_response_handler]}"
  by (simp add: consumers_def split: option.splits)

text \<open>
  Claim C1, as the specification states it, fails. With a Solana address waiting for
  its step-one reply and a BNB address waiting for its step-one reply, one reply of
  the second agent is consumed by the Solana step-one handler alone: its
  \<^verbatim>\<open>StopPropagation\<close> ends the dispatch before the BNB handlers run, so no step of
  the BNB chain consumes the event although one is eligible. With the Solana address
  waiting for its step-two reply instead, the Solana forwarding handler consumes the
  event and does not stop the dispatch: the BNB step-one handler, a later step, acts
  on the same event.
\<close>

theorem one_step_per_chain_counterexample:
  "first_key (\<lambda>ca state. state = B_waiting_for_response)
     [(sol_address_1, A_waiting_for_th_response), (evm_address_1, B_waiting_for_response)] =
     Some evm_address_1 \<and>
   acted (snd (dispatch_update decodes_all delivers_all
     \<lparr>chat = phanes_bot_username, raw_text = [], entities = None\<rparr>
     [(sol_address_1, A_waiting_for_th_response), (evm_address_1, B_waiting_for_response)])) =
     [Sol_phanes_th_response_handler] \<and>
   acted (snd (dispatch_update decodes_all delivers_all
     \<lparr>chat = phanes_bot_username, raw_text = [], entities = None\<rparr>
     [(sol_address_1, A_waiting_for_tt_response), (evm_address_1, B_waiting_for_response)])) =
     [Sol_phanes_tt_response_handler, Bnb_phanes_initial_response_handler]"
proof -
  let ?ev = "\<lparr>chat = phanes_bot_username, raw_text = [], entities = None\<rparr>"
  have sol: "sol_address_1 \<noteq> []" by (simp add: sol_address_1_def)
  have evm: "evm_address_1 \<noteq> []" by (simp add: evm_address_1_def)
  have differ: "sol_address_1 \<noteq> evm_address_1"
    by (simp add: sol_address_1_def evm_address_1_def)
  have chat: "chat ?ev = phanes_bot_username" by simp
  show ?thesis
    unfolding dispatch_phanes[OF chat]
    using sol evm differ
    by (simp add: first_key_def sol_phanes_th_response_handler_def
        sol_phanes_tt_response_handler_def bnb_phanes_initial_response_handler_def
        send_message_def delivers_all_def is_pending_def)
qed

text \<open>
  Claim C1, amended. When the commands of the step-one handlers are delivered, the
  handlers that act on one reply of the second agent are exactly \<open>consumers\<close> of the
  dictionary: at most one step per chain, tried in the fixed order Solana step one,
  Solana step two, BNB step one, BNB step two. A Solana address waiting for step one
  is served first, and then no other handler of either chain acts on the event;
  otherwise a Solana address waiting for step two is forwarded and the event still
  reaches the BNB steps, where step one is served before step two and stops it. A
  reply for which no entry is eligible is consumed by no step.
\<close>

theorem one_step_per_chain:
  assumes "chat ev = phanes_bot_username"
    and "\<forall>ca. delivers phanes_bot_username (tt_command ca)"
    and "distinct (map fst p)"
  shows "acted (snd (dispatch_update lib delivers ev p)) = consumers p \<and>
    acted (snd (dispatch_update lib delivers ev p)) \<in>
    {[], [Sol_phanes_th_response_handler], [Sol_phanes_tt_response_handler],
     [Bnb_phanes_initial_response_handler], [Bnb_phanes_tt_response_handler],
     [Sol_phanes_tt_response_handler, Bnb_phanes_initial_response_handler],
     [Sol_phanes_tt_response_handler, Bnb_phanes_tt_response_handler]}"
proof -
  have "acted (snd (dispatch_update lib delivers ev p)) = consumers p"
    by (rule dispatch_phanes_acted[where delivers=delivers, OF assms])
  with consumers_cases[of p] show ?thesis by simp
qed

theorem one_step_per_chain_witness:
  "chat \<lparr>chat = phanes_bot_username, raw_text = [], entities = None\<rparr> =
     phanes_bot_username \<and>
   (\<forall>ca. delivers_all phanes_bot_username (tt_command ca)) \<and>
   distinct (map fst
     [(sol_address_1, A_waiting_for_tt_response), (sol_address_2, A_waiting_for_th_response)]) \<and>
   acted (snd (dispatch_update decodes_all delivers_all
     \<lparr>chat = phanes_bot_username, raw_text = [], entities = None\<rparr>
     [(sol_address_1, A_waiting_for_tt_response), (sol_address_2, A_waiting_for_th_response)])) =
     [Sol_phanes_th_response_handler]"
proof -
  let ?ev = "\<lparr>chat = phanes_bot_username, raw_text = [], entities = None\<rparr>"
  let ?p = "[(sol_address_1, A_waiting_for_tt_response),
    (sol_address_2, A_waiting_for_th_response)]"
  have chat: "chat ?ev = phanes_bot_username" by simp
  have sends: "\<forall>ca. delivers_all phanes_bot_username (tt_command ca)"
    by (simp add: delivers_all_def)
  have keys: "distinct (map fst ?p)"
    by (simp add: sol_address_1_def sol_address_2_def)
  have "consumers ?p = [Sol_phanes_th_response_handler]"
    by (simp add: consumers_def first_key_def sol_address_2_def)
  with one_step_per_chain [where delivers=delivers_all and lib=decodes_all, OF chat sends keys]
    chat sends keys
  show ?thesis by simp
qed

subsection \<open>Stages only move forward\<close>

lemma system_program_list:
  "system_program =
     [49, 49, 49, 49, 49, 49, 49, 49, 49, 49, 49, 49, 49, 49, 49, 49,
      49, 49, 49, 49, 49, 49, 49, 49, 49, 49, 49, 49, 49, 49, 49, 49]"
  by (simp add: system_program_def eval_nat_numeral)

lemma findall_post: "findall Solana_address_pattern (128293 # 32 # system_program) = [system_program]"
  by (simp add: system_program_list is_base58_def Let_def)

lemma system_program_nonempty: "system_program \<noteq> []"
  by (simp add: system_program_list)

lemma post_extracted: "extract_ca decodes_system_program post_of_system_program False = Inr (Some system_program)"
  by (simp add: extract_ca_def post_of_system_program_def pattern_of_def findall_post is_valid_solana_address_def
      decodes_system_program_def del: findall.simps)

lemma post_marked: "startswith (strip (raw_text post_of_system_program)) fire_glyph"
  by (simp add: post_of_system_program_def startswith_def strip_def isspace_def fire_glyph_def
      system_program_list)

lemma reply_of_scanner_contains: "contains (raw_text reply_of_scanner) system_program"
  by (simp add: reply_of_scanner_def system_program_list startswith_def)

lemma chat_of:
  "chat post_of_system_program = channel_a_username"
  "chat reply_of_scanner = soul_scanner_bot_username"
  "chat reply_of_second_agent = phanes_bot_username"
  by (simp_all add: post_of_system_program_def reply_of_scanner_def reply_of_second_agent_def)

lemma chats_differ:
  "channel_a_username \<noteq> channel_b_username"
  "channel_a_username \<noteq> soul_scanner_bot_username"
  "channel_a_username \<noteq> phanes_bot_username"
  "soul_scanner_bot_username \<noteq> channel_a_username"
  "soul_scanner_bot_username \<noteq> channel_b_username"
  "soul_scanner_bot_username \<noteq> phanes_bot_username"
  "phanes_bot_username \<noteq> channel_a_username"
  "phanes_bot_username \<noteq> channel_b_username"
  "phanes_bot_username \<noteq> soul_scanner_bot_username"
  by (simp_all add: channel_a_username_def channel_b_username_def
      soul_scanner_bot_username_def phanes_bot_username_def)

lemma post_starts:
  "dispatch_from event_builders decodes_system_program delivers_all post_of_system_program [] =
     ([[(system_program, A_soul_scanner)]],
      Some ([Sol_soul_scanner_handler, Sol_phanes_th_response_handler,
             Sol_phanes_tt_response_handler, Bnb_handler,
             Bnb_phanes_initial_response_handler, Bnb_phanes_tt_response_handler],
            decodes_system_program, delivers_all, post_of_system_program,
            soul_scanner_bot_username, system_program, Then_return))"
  using system_program_nonempty
  by (simp add: event_builders_def chat_of post_extracted post_marked is_pending_def)

lemma post_ends:
  "resume ([Sol_soul_scanner_handler, Sol_phanes_th_response_handler,
             Sol_phanes_tt_response_handler, Bnb_handler,
             Bnb_phanes_initial_response_handler, Bnb_phanes_tt_response_handler],
            decodes_system_program, delivers_all, post_of_system_program,
            soul_scanner_bot_username, system_program, Then_return) q = ([q], None)"
  by (simp add: chat_of chats_differ send_message_def delivers_all_def)

lemma scan_starts:
  "dispatch_from event_builders decodes_system_program delivers_all reply_of_scanner
     [(system_program, A_soul_scanner)] =
     ([[(system_program, A_waiting_for_th_response)]],
      Some ([Sol_phanes_th_response_handler,
             Sol_phanes_tt_response_handler, Bnb_handler,
             Bnb_phanes_initial_response_handler, Bnb_phanes_tt_response_handler],
            decodes_system_program, delivers_all, reply_of_scanner,
            phanes_bot_username, th_command system_program, Then_return))"
  using system_program_nonempty
  by (simp add: event_builders_def chat_of chats_differ reply_of_scanner_contains first_key_def)

lemma scan_ends:
  "resume ([Sol_phanes_th_response_handler,
             Sol_phanes_tt_response_handler, Bnb_handler,
             Bnb_phanes_initial_response_handler, Bnb_phanes_tt_response_handler],
            decodes_system_program, delivers_all, reply_of_scanner,
            phanes_bot_username, th_command system_program, Then_return) q = ([q], None)"
  by (simp add: chat_of chats_differ send_message_def delivers_all_def)

lemma th_starts:
  "dispatch_from event_builders decodes_system_program delivers_all reply_of_second_agent
     [(system_program, A_waiting_for_th_response)] =
     ([[(system_program, A_waiting_for_tt_response)]],
      Some ([Sol_phanes_tt_response_handler, Bnb_handler,
             Bnb_phanes_initial_response_handler, Bnb_phanes_tt_response_handler],
            decodes_system_program, delivers_all, reply_of_second_agent,
            phanes_bot_username, tt_command system_program, Then_stop_propagation))"
  using system_program_nonempty
  by (simp add: event_builders_def chat_of chats_differ first_key_def)

lemma th_ends:
  "resume ([Sol_phanes_tt_response_handler, Bnb_handler,
             Bnb_phanes_initial_response_handler, Bnb_phanes_tt_response_handler],
            decodes_system_program, delivers_all, reply_of_second_agent,
            phanes_bot_username, tt_command system_program, Then_stop_propagation) q =
     ([q], None)"
  by (simp add: send_message_def delivers_all_def)

lemma forward_starts:
  "dispatch_from event_builders decodes_system_program delivers_all reply_of_second_agent
     [(system_program, A_waiting_for_tt_response)] =
     ([[(system_program, A_waiting_for_tt_response)],
       [(system_program, A_waiting_for_tt_response)]],
      Some ([Bnb_handler,
             Bnb_phanes_initial_response_handler, Bnb_phanes_tt_response_handler],
            decodes_system_program, delivers_all, reply_of_second_agent,
            sol_target_group, system_program, Then_delete system_program))"
  using system_program_nonempty
  by (simp add: event_builders_def chat_of chats_differ first_key_def)

lemma forward_ends:
  "resume ([Bnb_handler,
             Bnb_phanes_initial_response_handler, Bnb_phanes_tt_response_handler],
            decodes_system_program, delivers_all, reply_of_second_agent,
            sol_target_group, system_program, Then_delete system_program)
     [(system_program, state)] = ([[], [], []], None)"
  by (simp add: chat_of chats_differ first_key_def is_pending_def)

text \<open>
  Claim C2 does not hold of the program. The claim is that in every reachable execution
  the stage of each entry only moves to the stage right after it in its chain's
  sequence. Every part of a handler keeps to that, but for the deletion after a
  forward (\<open>execution_moves_on_or_out\<close>), and so does every handler that runs from its
  start to its end with nothing in between (\<open>callback_follows\<close>). A forwarding handler,
  though, looks for an address at the last state before its send and deletes that
  address after it, and checks then only that the address is a key. On the schedule
  \<open>stale_forward\<close>, which starts with the empty dictionary, the second forward deletes
  the address when it has been posted again and is at \<^verbatim>\<open>a_soul_scanner\<close>: the entry
  leaves the sequence at its first stage and never reaches the stages in between.
\<close>

theorem stale_forward_skips_stages:
  "execution stale_forward [] =
     [[], [(system_program, A_soul_scanner)], [(system_program, A_soul_scanner)],
      [(system_program, A_waiting_for_th_response)],
      [(system_program, A_waiting_for_th_response)],
      [(system_program, A_waiting_for_tt_response)],
      [(system_program, A_waiting_for_tt_response)],
      [(system_program, A_waiting_for_tt_response)],
      [(system_program, A_waiting_for_tt_response)],
      [(system_program, A_waiting_for_tt_response)],
      [(system_program, A_waiting_for_tt_response)],
      [], [], [],
      [(system_program, A_soul_scanner)],
      [], [], []] \<and>
   \<not> successively
     (\<lambda>q q'. \<forall>a. map_of q' a = map_of q a \<or> follows (map_of q a) (map_of q' a))
     (execution stale_forward [])"
proof -
  have run: "execution stale_forward [] =
     [[], [(system_program, A_soul_scanner)], [(system_program, A_soul_scanner)],
      [(system_program, A_waiting_for_th_response)],
      [(system_program, A_waiting_for_th_response)],
      [(system_program, A_waiting_for_tt_response)],
      [(system_program, A_waiting_for_tt_response)],
      [(system_program, A_waiting_for_tt_response)],
      [(system_program, A_waiting_for_tt_response)],
      [(system_program, A_waiting_for_tt_response)],
      [(system_program, A_waiting_for_tt_response)],
      [], [], [],
      [(system_program, A_soul_scanner)],
      [], [], []]"
    by (simp add: execution_def stale_forward_def post_starts post_ends scan_starts scan_ends
        th_starts th_ends forward_starts forward_ends del: dispatch_from.simps resume.simps)
  have "\<not> (\<forall>a. map_of [] a = map_of [(system_program, A_soul_scanner)] a \<or>
    follows (map_of [(system_program, A_soul_scanner)] a) (map_of [] a))"
  proof
    assume "\<forall>a. map_of [] a = map_of [(system_program, A_soul_scanner)] a \<or>
      follows (map_of [(system_program, A_soul_scanner)] a) (map_of [] a)"
    then have "map_of [] system_program = map_of [(system_program, A_soul_scanner)] system_program \<or>
      follows (map_of [(system_program, A_soul_scanner)] system_program) (map_of [] system_program)"
      by (rule spec)
    then show False by simp
  qed
  then have "\<not> successively
     (\<lambda>q q'. \<forall>a. map_of q' a = map_of q a \<or> follows (map_of q a) (map_of q' a))
     (execution stale_forward [])"
    unfolding run by simp
  with run show ?thesis by (rule conjI)
qed

subsection \<open>One entry per address\<close>

text \<open>
  Claim C3. The keys of the dictionary stay distinct through every execution, with
  the handlers interleaved at their sends in any way, through every handler run and
  every dispatch, so there is at most one entry per address, whichever
  chain stored it. When a source message passes the prefilter of its channel and
  \<^verbatim>\<open>extract_ca\<close> yields an address that is already a key, the channel's handler
  only logs a warning: it returns with the dictionary as it was and sends nothing, and
  the dictionary holds exactly one entry for that address.
\<close>

theorem one_instance_per_address:
  assumes "distinct (map fst p)"
  shows "list_all (\<lambda>q. distinct (map fst q)) (execution steps p) \<and>
         distinct (map fst (pending_after (callback h lib' delivers' ev' p))) \<and>
         distinct (map fst (fst (dispatch_update lib' delivers' ev' p))) \<and>
         (is_pending a p \<and> extract_ca lib ev is_bnb_channel = Inr (Some a) \<and>
          startswith (strip (raw_text ev)) (if is_bnb_channel then coin_glyph else fire_glyph)
          \<longrightarrow>
          (if is_bnb_channel then bnb_handler lib delivers ev p
           else sol_handler lib delivers ev p) = (None, p, [Log WARNING]) \<and>
          length (filter (\<lambda>entry. fst entry = a) p) = 1)"
proof (intro conjI impI)
  from assms show "list_all (\<lambda>q. distinct (map fst q)) (execution steps p)"
    by (rule execution_distinct)
next
  from assms show "distinct (map fst (pending_after (callback h lib' delivers' ev' p)))"
    by (rule callback_distinct)
next
  from assms show "distinct (map fst (fst (dispatch_update lib' delivers' ev' p)))"
    unfolding dispatch_update_def by (rule run_builders_distinct)
next
  assume again: "is_pending a p \<and> extract_ca lib ev is_bnb_channel = Inr (Some a) \<and>
    startswith (strip (raw_text ev)) (if is_bnb_channel then coin_glyph else fire_glyph)"
  then have "a \<noteq> []" by (auto dest: extract_ca_nonempty)
  with again
  show "(if is_bnb_channel then bnb_handler lib delivers ev p
         else sol_handler lib delivers ev p) = (None, p, [Log WARNING])"
    by (cases is_bnb_channel) (simp_all add: sol_handler_def bnb_handler_def)
  from assms again show "length (filter (\<lambda>entry. fst entry = a) p) = 1"
    by (simp add: one_entry)
qed

theorem one_instance_per_address_witness:
  "distinct (map fst [(sol_address_1, A_waiting_for_th_response)]) \<and>
   is_pending sol_address_1 [(sol_address_1, A_waiting_for_th_response)] \<and>
   extract_ca decodes_all
     \<lparr>chat = channel_a_username, raw_text = [128293, 32] @ sol_address_1, entities = None\<rparr>
     False = Inr (Some sol_address_1) \<and>
   startswith (strip ([128293, 32] @ sol_address_1)) fire_glyph \<and>
   sol_handler decodes_all delivers_all
     \<lparr>chat = channel_a_username, raw_text = [128293, 32] @ sol_address_1, entities = None\<rparr>
     [(sol_address_1, A_waiting_for_th_response)] =
     (None, [(sol_address_1, A_waiting_for_th_response)], [Log WARNING]) \<and>
   is_pending evm_address_1 [(evm_address_1, A_soul_scanner)] \<and>
   extract_ca decodes_all
     \<lparr>chat = channel_b_username, raw_text = [129689, 32] @ evm_address_1, entities = None\<rparr>
     True = Inr (Some evm_address_1) \<and>
   startswith (strip ([129689, 32] @ evm_address_1)) coin_glyph \<and>
   bnb_handler decodes_all delivers_all
     \<lparr>chat = channel_b_username, raw_text = [129689, 32] @ evm_address_1, entities = None\<rparr>
     [(evm_address_1, A_soul_scanner)] =
     (None, [(evm_address_1, A_soul_scanner)], [Log WARNING]) \<and>
   length (filter (\<lambda>entry. fst entry = evm_address_1) [(evm_address_1, A_soul_scanner)]) = 1"
proof -
  let ?ev_a = "\<lparr>chat = channel_a_username, raw_text = [128293, 32] @ sol_address_1,
    entities = None\<rparr>"
  let ?ev_b = "\<lparr>chat = channel_b_username, raw_text = [129689, 32] @ evm_address_1,
    entities = None\<rparr>"
  have a1: "distinct (map fst [(sol_address_1, A_waiting_for_th_response)])" by simp
  have a2: "is_pending sol_address_1 [(sol_address_1, A_waiting_for_th_response)]"
    by (simp add: is_pending_def)
  have a3: "extract_ca decodes_all ?ev_a False = Inr (Some sol_address_1)"
    by (simp add: extract_ca_def pattern_of_def sol_address_1_def is_base58_def Let_def
        is_valid_solana_address_def decodes_all_def)
  have a4: "startswith (strip (raw_text ?ev_a)) (if False then coin_glyph else fire_glyph)"
    by (simp add: startswith_def strip_def isspace_def fire_glyph_def sol_address_1_def)
  have b1: "distinct (map fst [(evm_address_1, A_soul_scanner)])" by simp
  have b2: "is_pending evm_address_1 [(evm_address_1, A_soul_scanner)]"
    by (simp add: is_pending_def)
  have b3: "extract_ca decodes_all ?ev_b True = Inr (Some evm_address_1)"
    by (simp add: extract_ca_def pattern_of_def evm_address_1_def is_hex_def)
  have b4: "startswith (strip (raw_text ?ev_b)) (if True then coin_glyph else fire_glyph)"
    by (simp add: startswith_def strip_def isspace_def coin_glyph_def evm_address_1_def)
  from one_instance_per_address [OF a1, of "[]" Sol_handler decodes_all delivers_all ?ev_a
      sol_address_1 decodes_all ?ev_a False delivers_all]
    one_instance_per_address [OF b1, of "[]" Bnb_handler decodes_all delivers_all ?ev_b
      evm_address_1 decodes_all ?ev_b True delivers_all]
    a1 a2 a3 a4 b2 b3 b4
  show ?thesis by simp
qed

subsection \<open>Forwarding clears the entry\<close>

text \<open>
  Claim C4. When the forwarding handler of a chain finds an address at the chain's
  last state, it calls \<^verbatim>\<open>send_message\<close> with the address for the chain's target
  group, logs the outcome (an error when the send raised), deletes the address and
  returns normally, whether the send returned or raised: the entry is gone in both
  cases.
\<close>

theorem forward_clears_the_instance:
  "(first_key (\<lambda>ca state. state = A_waiting_for_tt_response) p = Some ca \<longrightarrow>
      sol_phanes_tt_response_handler delivers ev p =
        (None, AList.delete ca p,
         [Log INFO, Send_message sol_target_group ca,
          if delivers sol_target_group ca then Log INFO else Log ERROR]) \<and>
      \<not> is_pending ca (AList.delete ca p)) \<and>
   (first_key (\<lambda>ca state. state = B_waiting_for_tt_response) p = Some cb \<longrightarrow>
      bnb_phanes_tt_response_handler delivers ev p =
        (None, AList.delete cb p,
         [Log INFO, Send_message bnb_target_group cb,
          if delivers bnb_target_group cb then Log INFO else Log ERROR]) \<and>
      \<not> is_pending cb (AList.delete cb p))"
proof (intro conjI impI)
  assume found: "first_key (\<lambda>ca state. state = A_waiting_for_tt_response) p = Some ca"
  from first_key_SomeD[OF found] have "is_pending ca p"
    by (force simp: is_pending_def)
  with found show "sol_phanes_tt_response_handler delivers ev p =
        (None, AList.delete ca p,
         [Log INFO, Send_message sol_target_group ca,
          if delivers sol_target_group ca then Log INFO else Log ERROR])"
    by (simp add: sol_phanes_tt_response_handler_def send_message_def)
next
  show "\<not> is_pending ca (AList.delete ca p)"
    by (simp add: is_pending_map_of delete_conv')
next
  assume found: "first_key (\<lambda>ca state. state = B_waiting_for_tt_response) p = Some cb"
  from first_key_SomeD[OF found] have "is_pending cb p"
    by (force simp: is_pending_def)
  with found show "bnb_phanes_tt_response_handler delivers ev p =
        (None, AList.delete cb p,
         [Log INFO, Send_message bnb_target_group cb,
          if delivers bnb_target_group cb then Log INFO else Log ERROR])"
    by (simp add: bnb_phanes_tt_response_handler_def send_message_def)
next
  show "\<not> is_pending cb (AList.delete cb p)"
    by (simp add: is_pending_map_of delete_conv')
qed

theorem forward_clears_the_instance_witness:
  "first_key (\<lambda>ca state. state = A_waiting_for_tt_response)
     [(sol_address_1, A_waiting_for_tt_response), (evm_address_1, B_waiting_for_tt_response)] =
     Some sol_address_1 \<and>
   sol_phanes_tt_response_handler delivers_none
     \<lparr>chat = phanes_bot_username, raw_text = [], entities = None\<rparr>
     [(sol_address_1, A_waiting_for_tt_response), (evm_address_1, B_waiting_for_tt_response)] =
     (None, [(evm_address_1, B_waiting_for_tt_response)],
      [Log INFO, Send_message sol_target_group sol_address_1, Log ERROR]) \<and>
   first_key (\<lambda>ca state. state = B_waiting_for_tt_response)
     [(sol_address_1, A_waiting_for_tt_response), (evm_address_1, B_waiting_for_tt_response)] =
     Some evm_address_1 \<and>
   bnb_phanes_tt_response_handler delivers_none
     \<lparr>chat = phanes_bot_username, raw_text = [], entities = None\<rparr>
     [(sol_address_1, A_waiting_for_tt_response), (evm_address_1, B_waiting_for_tt_response)] =
     (None, [(sol_address_1, A_waiting_for_tt_response)],
      [Log INFO, Send_message bnb_target_group evm_address_1, Log ERROR])"
proof -
  let ?p = "[(sol_address_1, A_waiting_for_tt_response),
    (evm_address_1, B_waiting_for_tt_response)]"
  have differ: "sol_address_1 \<noteq> evm_address_1"
    by (simp add: sol_address_1_def evm_address_1_def)
  have a: "first_key (\<lambda>ca state. state = A_waiting_for_tt_response) ?p = Some sol_address_1"
    by (simp add: first_key_def sol_address_1_def)
  have b: "first_key (\<lambda>ca state. state = B_waiting_for_tt_response) ?p = Some evm_address_1"
    by (simp add: first_key_def evm_address_1_def)
  from forward_clears_the_instance [of ?p sol_address_1 delivers_none
      "\<lparr>chat = phanes_bot_username, raw_text = [], entities = None\<rparr>" evm_address_1]
    a b differ
  show ?thesis by (simp add: delivers_none_def)
qed

subsection \<open>The extractor meets its specification\<close>

text \<open>
  Claim C5. For every message and chain, \<^verbatim>\<open>extract_ca\<close> returns what the
  specification's \<open>Extract\<close> describes: the hyperlink URLs are scanned first, in their
  order, then the raw text; the first regex match that passes the chain's validator
  (Solana: the key decodes; BNB: every match) is the result, and there is none when no
  match passes.
\<close>

theorem extract_ca_refines_Extract:
  "extract_ca lib ev is_bnb_channel = Inr (Extract lib ev is_bnb_channel)"
  by (simp add: extract_ca_def Extract_def hyperlink_urls_def scan_entities_first_in_urls
      scan_matches_find first_valid_match_def split: option.splits)

theorem extract_ca_refines_Extract_witness:
  "Extract (Inr (\<lambda>address. if address = sol_address_2 then Inl ParseError else Inr []))
     \<lparr>chat = channel_a_username, raw_text = [128293, 32] @ sol_address_1,
      entities = Some [Other_entity, MessageEntityTextUrl ([47] @ sol_address_2)]\<rparr> False =
     Some sol_address_1 \<and>
   extract_ca (Inr (\<lambda>address. if address = sol_address_2 then Inl ParseError else Inr []))
     \<lparr>chat = channel_a_username, raw_text = [128293, 32] @ sol_address_1,
      entities = Some [Other_entity, MessageEntityTextUrl ([47] @ sol_address_2)]\<rparr> False =
     Inr (Some sol_address_1) \<and>
   extract_ca decodes_all
     \<lparr>chat = channel_a_username, raw_text = [128293, 32] @ sol_address_1,
      entities = Some [Other_entity, MessageEntityTextUrl ([47] @ sol_address_2)]\<rparr> False =
     Inr (Some sol_address_2) \<and>
   extract_ca decodes_all
     \<lparr>chat = channel_b_username, raw_text = [129689, 32] @ evm_address_1,
      entities = Some [MessageEntityTextUrl ([47] @ sol_address_2)]\<rparr> True =
     Inr (Some evm_address_1)"
proof -
  let ?lib = "Inr (\<lambda>address. if address = sol_address_2 then Inl ParseError else Inr [])"
  let ?ev = "\<lparr>chat = channel_a_username, raw_text = [128293, 32] @ sol_address_1,
    entities = Some [Other_entity, MessageEntityTextUrl ([47] @ sol_address_2)]\<rparr>"
  let ?ev_b = "\<lparr>chat = channel_b_username, raw_text = [129689, 32] @ evm_address_1,
    entities = Some [MessageEntityTextUrl ([47] @ sol_address_2)]\<rparr>"
  have in_url: "findall Solana_address_pattern (47 # sol_address_2) = [sol_address_2]"
    by (simp add: sol_address_2_def is_base58_def Let_def)
  have in_text: "findall Solana_address_pattern (128293 # 32 # sol_address_1) = [sol_address_1]"
    by (simp add: sol_address_1_def is_base58_def Let_def)
  have evm_url: "findall Evm_address_pattern (47 # sol_address_2) = []"
    by (simp add: sol_address_2_def)
  have evm_text: "findall Evm_address_pattern (129689 # 32 # evm_address_1) = [evm_address_1]"
    by (simp add: evm_address_1_def is_hex_def)
  have differ: "sol_address_1 \<noteq> sol_address_2"
    by (simp add: sol_address_1_def sol_address_2_def)
  have "Extract ?lib ?ev False = Some sol_address_1"
    using differ
    by (simp add: Extract_def hyperlink_urls_def first_valid_match_def passes_validator_def
        pattern_of_def in_url in_text del: findall.simps)
  moreover have "Extract decodes_all ?ev False = Some sol_address_2"
    by (simp add: Extract_def hyperlink_urls_def first_valid_match_def passes_validator_def
        pattern_of_def in_url in_text decodes_all_def del: findall.simps)
  moreover have "Extract decodes_all ?ev_b True = Some evm_address_1"
    by (simp add: Extract_def hyperlink_urls_def first_valid_match_def passes_validator_def
        pattern_of_def evm_url evm_text del: findall.simps)
  ultimately show ?thesis
    using extract_ca_refines_Extract [of ?lib ?ev False]
      extract_ca_refines_Extract [of decodes_all ?ev False]
      extract_ca_refines_Extract [of decodes_all ?ev_b True]
    by simp
qed

subsection \<open>The marker prefilter\<close>

text \<open>
  Claim C6, as the specification states it, fails: the handlers test the text after
  \<^verbatim>\<open>strip()\<close>. A message on the Solana channel that begins with a space and then
  the fire glyph does not have the glyph as its leading character, and yet its address
  is extracted, stored and sent to the scanner bot.
\<close>

theorem prefilter_leading_glyph_counterexample:
  "\<not> startswith ([32, 128293, 32] @ sol_address_1) fire_glyph \<and>
   dispatch_update decodes_all delivers_all
     \<lparr>chat = channel_a_username, raw_text = [32, 128293, 32] @ sol_address_1,
      entities = None\<rparr> [] =
     ([(sol_address_1, A_soul_scanner)],
      [(Sol_handler, None,
        [Log INFO, Send_message soul_scanner_bot_username sol_address_1])])"
proof -
  let ?ev = "\<lparr>chat = channel_a_username, raw_text = [32, 128293, 32] @ sol_address_1,
    entities = None\<rparr>"
  have glyph: "\<not> startswith ([32, 128293, 32] @ sol_address_1) fire_glyph"
    by (simp add: startswith_def fire_glyph_def)
  have stripped: "startswith (strip (raw_text ?ev)) fire_glyph"
    by (simp add: startswith_def strip_def isspace_def fire_glyph_def sol_address_1_def)
  have extracted: "extract_ca decodes_all ?ev False = Inr (Some sol_address_1)"
    by (simp add: extract_ca_def pattern_of_def sol_address_1_def is_base58_def Let_def
        is_valid_solana_address_def decodes_all_def)
  have nonempty: "sol_address_1 \<noteq> []" by (simp add: sol_address_1_def)
  have "sol_handler decodes_all delivers_all ?ev [] =
    (None, [(sol_address_1, A_soul_scanner)],
     [Log INFO, Send_message soul_scanner_bot_username sol_address_1])"
    unfolding sol_handler_def using stripped extracted nonempty
    by (simp add: is_pending_def send_message_def delivers_all_def)
  then have "run_builders [Sol_handler] decodes_all delivers_all ?ev [] =
    ([(sol_address_1, A_soul_scanner)],
     [(Sol_handler, None, [Log INFO, Send_message soul_scanner_bot_username sol_address_1])])"
    by simp
  with glyph show ?thesis by (simp add: dispatch_channel_a)
qed

text \<open>
  Claim C6, amended. For every message on a source channel whose text, after
  \<^verbatim>\<open>strip()\<close> has removed the whitespace around it, does not start with the chain's
  marker glyph, the only thing that happens is one information log record of the
  channel's handler: whatever the decoding library would do, the dictionary stays as it
  is and no message is sent.
\<close>

theorem prefilter_blocks_unmarked:
  "(chat ev = channel_a_username \<and> \<not> startswith (strip (raw_text ev)) fire_glyph \<longrightarrow>
      dispatch_update lib delivers ev p = (p, [(Sol_handler, None, [Log INFO])])) \<and>
   (chat ev = channel_b_username \<and> \<not> startswith (strip (raw_text ev)) coin_glyph \<longrightarrow>
      dispatch_update lib delivers ev p = (p, [(Bnb_handler, None, [Log INFO])]))"
  by (simp add: dispatch_channel_a dispatch_channel_b sol_handler_def bnb_handler_def)

theorem prefilter_blocks_unmarked_witness:
  "chat \<lparr>chat = channel_a_username, raw_text = sol_address_1, entities = None\<rparr> =
     channel_a_username \<and>
   \<not> startswith (strip sol_address_1) fire_glyph \<and>
   dispatch_update decodes_all delivers_all
     \<lparr>chat = channel_a_username, raw_text = sol_address_1, entities = None\<rparr> [] =
     ([], [(Sol_handler, None, [Log INFO])]) \<and>
   \<not> startswith (strip ([128293, 32] @ evm_address_1)) coin_glyph \<and>
   dispatch_update decodes_all delivers_all
     \<lparr>chat = channel_b_username, raw_text = [128293, 32] @ evm_address_1, entities = None\<rparr> [] =
     ([], [(Bnb_handler, None, [Log INFO])])"
proof -
  have a: "\<not> startswith (strip sol_address_1) fire_glyph"
    by (simp add: startswith_def strip_def isspace_def fire_glyph_def sol_address_1_def)
  have b: "\<not> startswith (strip ([128293, 32] @ evm_address_1)) coin_glyph"
    by (simp add: startswith_def strip_def isspace_def coin_glyph_def evm_address_1_def)
  from prefilter_blocks_unmarked [of
      "\<lparr>chat = channel_a_username, raw_text = sol_address_1, entities = None\<rparr>"
      decodes_all delivers_all "[]"]
    prefilter_blocks_unmarked [of
      "\<lparr>chat = channel_b_username, raw_text = [128293, 32] @ evm_address_1, entities = None\<rparr>"
      decodes_all delivers_all "[]"]
    a b
  show ?thesis by simp
qed

subsection \<open>The scanner reply\<close>

lemma dispatch_keeps_scanner_state:
  assumes "chat ev \<noteq> soul_scanner_bot_username"
    and "distinct (map fst p)"
    and "map_of p a = Some A_soul_scanner"
  shows "map_of (fst (dispatch_update lib delivers ev p)) a = Some A_soul_scanner"
proof -
  have "\<forall>h\<in>set event_builders. chats h = chat ev \<longrightarrow>
    fst (transition h) \<in> {Some A_soul_scanner} \<longrightarrow> snd (transition h) \<in> {Some A_soul_scanner}"
    using assms(1) by (auto simp: event_builders_def)
  from run_builders_closed[OF this assms(2), of a lib delivers] assms(3)
  show ?thesis by (simp add: dispatch_update_def)
qed

text \<open>
  Claim C7, as the specification states it, fails in one direction: a scanner reply
  whose text contains the addresses of two entries at \<^verbatim>\<open>a_soul_scanner\<close> moves only
  the one stored first. The second stays at its state although the text contains its
  address.
\<close>

theorem scanner_reply_counterexample:
  "map_of [(sol_address_1, A_soul_scanner), (sol_address_2, A_soul_scanner)] sol_address_2 =
     Some A_soul_scanner \<and>
   contains (sol_address_1 @ [32] @ sol_address_2) sol_address_2 \<and>
   map_of (fst (dispatch_update decodes_all delivers_all
     \<lparr>chat = soul_scanner_bot_username, raw_text = sol_address_1 @ [32] @ sol_address_2,
      entities = None\<rparr>
     [(sol_address_1, A_soul_scanner), (sol_address_2, A_soul_scanner)])) sol_address_2 =
     Some A_soul_scanner"
proof -
  let ?ev = "\<lparr>chat = soul_scanner_bot_username,
    raw_text = sol_address_1 @ [32] @ sol_address_2, entities = None\<rparr>"
  have differ: "sol_address_1 \<noteq> sol_address_2"
    by (simp add: sol_address_1_def sol_address_2_def)
  have one: "sol_address_1 \<noteq> []" by (simp add: sol_address_1_def)
  have chat: "chat ?ev = soul_scanner_bot_username" by simp
  have first: "contains (raw_text ?ev) sol_address_1"
    by (simp add: sol_address_1_def startswith_def)
  have second: "contains (sol_address_1 @ [32] @ sol_address_2) sol_address_2"
    by (simp add: sol_address_1_def sol_address_2_def startswith_def)
  have "map_of (fst (dispatch_update decodes_all delivers_all ?ev
    [(sol_address_1, A_soul_scanner), (sol_address_2, A_soul_scanner)])) sol_address_2 =
     Some A_soul_scanner"
    unfolding dispatch_soul_scanner[OF chat] using first one differ
    by (simp add: sol_soul_scanner_handler_def first_key_def send_message_def delivers_all_def)
  with second differ show ?thesis by simp
qed

text \<open>
  Claim C7, amended. An address at \<^verbatim>\<open>a_soul_scanner\<close>, in a dictionary with
  distinct keys, is at \<^verbatim>\<open>a_waiting_for_th_response\<close> after the dispatch of an event
  exactly when the event comes from the scanner bot and the address is the one the
  handler's search returns: the first entry, in insertion order, that is at
  \<^verbatim>\<open>a_soul_scanner\<close> and whose address occurs in the text. Then the text contains the
  address, and the only handler run is the scanner handler's, which logs and calls
  \<^verbatim>\<open>send_message\<close> for the second agent with the step-one command of that address.
\<close>

theorem scanner_reply_advances_first_match:
  assumes "distinct (map fst p)"
    and "map_of p a = Some A_soul_scanner"
  shows "(map_of (fst (dispatch_update lib delivers ev p)) a = Some A_waiting_for_th_response
          \<longleftrightarrow>
          chat ev = soul_scanner_bot_username \<and>
          first_key (\<lambda>ca state. state = A_soul_scanner \<and> contains (raw_text ev) ca) p =
            Some a) \<and>
         (chat ev = soul_scanner_bot_username \<and>
          first_key (\<lambda>ca state. state = A_soul_scanner \<and> contains (raw_text ev) ca) p =
            Some a \<longrightarrow>
          contains (raw_text ev) a \<and>
          snd (dispatch_update lib delivers ev p) =
            [(Sol_soul_scanner_handler,
              send_message delivers phanes_bot_username (th_command a),
              [Log INFO, Send_message phanes_bot_username (th_command a)])])"
proof (cases "chat ev = soul_scanner_bot_username")
  case False
  from dispatch_keeps_scanner_state[OF False assms, of lib delivers] False
  show ?thesis by simp
next
  case True
  let ?found = "first_key (\<lambda>ca state. state = A_soul_scanner \<and> contains (raw_text ev) ca) p"
  have chat': "chat ev = chats Sol_soul_scanner_handler" using True by simp
  show ?thesis
  proof (cases ?found)
    case None
    then have "callback Sol_soul_scanner_handler lib delivers ev p = (None, p, [])"
      by (simp add: sol_soul_scanner_handler_def)
    from run_builders_returns[OF chat' this, of "[]"] assms(2) None True
    show ?thesis by (simp add: dispatch_soul_scanner[OF True] del: run_builders.simps(2))
  next
    case (Some x)
    let ?q = "AList.update x A_waiting_for_th_response p"
    from first_key_state[OF Some assms(1)] have inside: "contains (raw_text ev) x" by simp
    from Some have run: "callback Sol_soul_scanner_handler lib delivers ev p =
      (send_message delivers phanes_bot_username (th_command x), ?q,
       [Log INFO, Send_message phanes_bot_username (th_command x)])"
      by (simp add: sol_soul_scanner_handler_def)
    have "send_message delivers phanes_bot_username (th_command x) \<noteq> Some StopPropagation"
      by (simp add: send_message_def)
    from run_builders_returns[OF chat' run this, of "[]"]
    have result: "dispatch_update lib delivers ev p =
      (?q, [(Sol_soul_scanner_handler,
             send_message delivers phanes_bot_username (th_command x),
             [Log INFO, Send_message phanes_bot_username (th_command x)])])"
      by (simp add: dispatch_soul_scanner[OF True] del: run_builders.simps(2))
    have "map_of ?q a = Some A_waiting_for_th_response \<longleftrightarrow> x = a"
      using assms(2) by (auto simp: update_conv')
    with result Some True inside show ?thesis by auto
  qed
qed

theorem scanner_reply_advances_first_match_witness:
  "distinct (map fst [(sol_address_1, A_soul_scanner), (sol_address_2, A_soul_scanner)]) \<and>
   map_of [(sol_address_1, A_soul_scanner), (sol_address_2, A_soul_scanner)] sol_address_2 =
     Some A_soul_scanner \<and>
   first_key (\<lambda>ca state. state = A_soul_scanner \<and> contains ([35, 32] @ sol_address_2) ca)
     [(sol_address_1, A_soul_scanner), (sol_address_2, A_soul_scanner)] = Some sol_address_2 \<and>
   map_of (fst (dispatch_update decodes_all delivers_all
     \<lparr>chat = soul_scanner_bot_username, raw_text = [35, 32] @ sol_address_2, entities = None\<rparr>
     [(sol_address_1, A_soul_scanner), (sol_address_2, A_soul_scanner)])) sol_address_2 =
     Some A_waiting_for_th_response \<and>
   snd (dispatch_update decodes_all delivers_all
     \<lparr>chat = soul_scanner_bot_username, raw_text = [35, 32] @ sol_address_2, entities = None\<rparr>
     [(sol_address_1, A_soul_scanner), (sol_address_2, A_soul_scanner)]) =
     [(Sol_soul_scanner_handler, None,
       [Log INFO, Send_message phanes_bot_username (th_command sol_address_2)])]"
proof -
  let ?ev = "\<lparr>chat = soul_scanner_bot_username, raw_text = [35, 32] @ sol_address_2,
    entities = None\<rparr>"
  let ?p = "[(sol_address_1, A_soul_scanner), (sol_address_2, A_soul_scanner)]"
  have differ: "sol_address_1 \<noteq> sol_address_2"
    by (simp add: sol_address_1_def sol_address_2_def)
  have keys: "distinct (map fst ?p)" using differ by simp
  have at: "map_of ?p sol_address_2 = Some A_soul_scanner" using differ by simp
  have absent: "\<not> contains ([35, 32] @ sol_address_2) sol_address_1"
    by (simp add: sol_address_1_def sol_address_2_def startswith_def)
  have present: "contains ([35, 32] @ sol_address_2) sol_address_2"
    by (simp add: sol_address_2_def startswith_def)
  have two: "sol_address_2 \<noteq> []" by (simp add: sol_address_2_def)
  have found: "first_key (\<lambda>ca state. state = A_soul_scanner \<and>
    contains (raw_text ?ev) ca) ?p = Some sol_address_2"
    using absent present two by (simp add: first_key_def)
  from scanner_reply_advances_first_match [OF keys at, of decodes_all delivers_all ?ev]
    found keys at
  show ?thesis by (simp add: send_message_def delivers_all_def)
qed

subsection \<open>An entry advances only from the expected state\<close>

text \<open>
  Claim C8, as the specification states it, fails. The reply handlers take no address:
  they search the dictionary for the first entry at the state they serve. So for an
  address that is absent, or at another state, the run is no silent return that leaves
  every entry alone: with one address at \<^verbatim>\<open>a_soul_scanner\<close> and a second at
  \<^verbatim>\<open>a_waiting_for_th_response\<close>, the Solana step-one handler moves the second on,
  sends its command and raises \<^verbatim>\<open>StopPropagation\<close>, whatever address not at
  \<^verbatim>\<open>a_waiting_for_th_response\<close> one asks about.
\<close>

theorem advance_mismatch_counterexample:
  "map_of [(sol_address_1, A_soul_scanner), (sol_address_2, A_waiting_for_th_response)]
     sol_address_1 = Some A_soul_scanner \<and>
   map_of [(sol_address_1, A_soul_scanner), (sol_address_2, A_waiting_for_th_response)]
     evm_address_1 = None \<and>
   fst (transition Sol_phanes_th_response_handler) = Some A_waiting_for_th_response \<and>
   callback Sol_phanes_th_response_handler decodes_all delivers_all
     \<lparr>chat = phanes_bot_username, raw_text = [], entities = None\<rparr>
     [(sol_address_1, A_soul_scanner), (sol_address_2, A_waiting_for_th_response)] =
     (Some StopPropagation,
      [(sol_address_1, A_soul_scanner), (sol_address_2, A_waiting_for_tt_response)],
      [Log INFO, Send_message phanes_bot_username (tt_command sol_address_2)])"
proof -
  have differ: "sol_address_1 \<noteq> sol_address_2"
    by (simp add: sol_address_1_def sol_address_2_def)
  have others: "evm_address_1 \<noteq> sol_address_1" "evm_address_1 \<noteq> sol_address_2"
    by (simp_all add: sol_address_1_def sol_address_2_def evm_address_1_def)
  have nonempty: "sol_address_2 \<noteq> []" by (simp add: sol_address_2_def)
  from differ others nonempty show ?thesis
    by (simp add: sol_phanes_th_response_handler_def first_key_def send_message_def
        delivers_all_def)
qed

text \<open>
  Claim C8, amended. The specification's \<open>Advance(a, from, to)\<close> is the search and
  overwrite of the three reply handlers that move an entry on (scanner reply, Solana
  step one, BNB step one); \<open>from\<close> and \<open>to\<close> are the two states of \<open>transition\<close>.
  On a dictionary with distinct keys, an address that is absent or at another state
  than \<open>from\<close> keeps its state, though the same run may move another address on; an
  address whose state changes was at \<open>from\<close> and is at \<open>to\<close> afterwards; and when no
  address is at \<open>from\<close>, the handler returns without any effect and with the
  dictionary, and so every entry's state, as it was.
\<close>

theorem advance_only_from_expected_stage:
  assumes "distinct (map fst p)"
    and "h \<in> {Sol_soul_scanner_handler, Sol_phanes_th_response_handler,
      Bnb_phanes_initial_response_handler}"
  shows "(map_of p a \<noteq> fst (transition h) \<longrightarrow>
            map_of (pending_after (callback h lib net ev p)) a = map_of p a) \<and>
         (map_of (pending_after (callback h lib net ev p)) a \<noteq> map_of p a \<longrightarrow>
            map_of p a = fst (transition h) \<and>
            map_of (pending_after (callback h lib net ev p)) a = snd (transition h)) \<and>
         ((\<forall>k. k = [] \<or> map_of p k \<noteq> fst (transition h)) \<longrightarrow>
            callback h lib net ev p = (None, p, []))"
proof -
  from callback_transition[OF assms(1), of h lib net ev a]
  have changed: "map_of (pending_after (callback h lib net ev p)) a = map_of p a \<or>
    (map_of p a = fst (transition h) \<and>
     map_of (pending_after (callback h lib net ev p)) a = snd (transition h))"
    by (simp add: prod_eq_iff)
  have silent: "callback h lib net ev p = (None, p, [])"
    if none: "\<forall>k. k = [] \<or> map_of p k \<noteq> fst (transition h)"
  proof -
    from assms(2) consider "h = Sol_soul_scanner_handler"
      | "h = Sol_phanes_th_response_handler" | "h = Bnb_phanes_initial_response_handler"
      by blast
    then show ?thesis
    proof cases
      case 1
      with none have "\<forall>k. k = [] \<or> map_of p k \<noteq> Some A_soul_scanner" by simp
      from first_key_None_run[OF assms(1) this] 1 show ?thesis
        by (simp add: sol_soul_scanner_handler_def)
    next
      case 2
      with none have "\<forall>k. k = [] \<or> map_of p k \<noteq> Some A_waiting_for_th_response" by simp
      from first_key_None_run'[OF assms(1) this] 2 show ?thesis
        by (simp add: sol_phanes_th_response_handler_def)
    next
      case 3
      with none have "\<forall>k. k = [] \<or> map_of p k \<noteq> Some B_waiting_for_response" by simp
      from first_key_None_run'[OF assms(1) this] 3 show ?thesis
        by (simp add: bnb_phanes_initial_response_handler_def)
    qed
  qed
  from changed silent show ?thesis by blast
qed

theorem advance_only_from_expected_stage_witness:
  "distinct (map fst [(sol_address_1, A_soul_scanner), (sol_address_2, A_waiting_for_th_response)]) \<and>
   map_of [(sol_address_1, A_soul_scanner), (sol_address_2, A_waiting_for_th_response)]
     sol_address_1 \<noteq> fst (transition Sol_phanes_th_response_handler) \<and>
   map_of (pending_after (callback Sol_phanes_th_response_handler decodes_all delivers_all
       \<lparr>chat = phanes_bot_username, raw_text = [], entities = None\<rparr>
       [(sol_address_1, A_soul_scanner), (sol_address_2, A_waiting_for_th_response)]))
     sol_address_1 = Some A_soul_scanner \<and>
   map_of (pending_after (callback Sol_phanes_th_response_handler decodes_all delivers_all
       \<lparr>chat = phanes_bot_username, raw_text = [], entities = None\<rparr>
       [(sol_address_1, A_soul_scanner), (sol_address_2, A_waiting_for_th_response)]))
     sol_address_2 = Some A_waiting_for_tt_response \<and>
   (\<forall>k. k = [] \<or>
      map_of [(sol_address_1, A_soul_scanner)] k \<noteq>
        fst (transition Sol_phanes_th_response_handler)) \<and>
   callback Sol_phanes_th_response_handler decodes_all delivers_all
     \<lparr>chat = phanes_bot_username, raw_text = [], entities = None\<rparr>
     [(sol_address_1, A_soul_scanner)] = (None, [(sol_address_1, A_soul_scanner)], [])"
proof -
  let ?ev = "\<lparr>chat = phanes_bot_username, raw_text = [], entities = None\<rparr>"
  let ?p = "[(sol_address_1, A_soul_scanner), (sol_address_2, A_waiting_for_th_response)]"
  have differ: "sol_address_1 \<noteq> sol_address_2"
    by (simp add: sol_address_1_def sol_address_2_def)
  have keys: "distinct (map fst ?p)" using differ by simp
  have keys': "distinct (map fst [(sol_address_1, A_soul_scanner)])" by simp
  have member: "Sol_phanes_th_response_handler \<in> {Sol_soul_scanner_handler,
    Sol_phanes_th_response_handler, Bnb_phanes_initial_response_handler}" by simp
  have nowhere: "\<forall>k. k = [] \<or> map_of [(sol_address_1, A_soul_scanner)] k \<noteq>
    fst (transition Sol_phanes_th_response_handler)" by simp
  have moved: "map_of (pending_after (callback Sol_phanes_th_response_handler decodes_all
    delivers_all ?ev ?p)) sol_address_2 = Some A_waiting_for_tt_response"
    using differ
    by (simp add: sol_phanes_th_response_handler_def first_key_def sol_address_2_def)
  from advance_only_from_expected_stage [OF keys member, of sol_address_1 decodes_all
      delivers_all ?ev]
    advance_only_from_expected_stage [OF keys' member, of sol_address_1 decodes_all
      delivers_all ?ev]
    keys differ nowhere moved
  show ?thesis by simp
qed

subsection \<open>Two addresses at the same stage\<close>




subsection \<open>The validator never raises\<close>

text \<open>
  Claim C10. \<^verbatim>\<open>is_valid_solana_address\<close> returns a boolean for every string and
  every behaviour of the decoding library: it is \<^verbatim>\<open>True\<close> exactly when the import
  and the decoding both return, and \<^verbatim>\<open>False\<close> when either raises; no exception
  leaves it, and so none leaves \<^verbatim>\<open>extract_ca\<close>.
\<close>

theorem is_valid_solana_address_total:
  "(\<exists>b. is_valid_solana_address lib address = Inr b) \<and>
   (is_valid_solana_address lib address = Inr True \<longleftrightarrow>
      (\<exists>from_string key. lib = Inr from_string \<and> from_string address = Inr key)) \<and>
   (\<exists>found. extract_ca lib ev is_bnb_channel = Inr found)"
proof -
  have returns: "\<exists>b. is_valid_solana_address lib address = Inr b"
    by (simp add: is_valid_solana_address_conv)
  have true_iff: "is_valid_solana_address lib address = Inr True \<longleftrightarrow>
      (\<exists>from_string key. lib = Inr from_string \<and> from_string address = Inr key)"
    by (cases lib) (auto simp: is_valid_solana_address_def split: sum.splits)
  have no_abort: "\<exists>found. extract_ca lib ev is_bnb_channel = Inr found"
    by (simp add: extract_ca_def scan_entities_first_in_urls scan_matches_find
        split: option.splits)
  from returns true_iff no_abort show ?thesis by blast
qed

theorem is_valid_solana_address_total_witness:
  "is_valid_solana_address (Inl ImportError) sol_address_1 = Inr False \<and>
   is_valid_solana_address (Inr (\<lambda>address. Inl ParseError)) sol_address_1 = Inr False \<and>
   is_valid_solana_address decodes_all sol_address_1 = Inr True"
proof -
  let ?ev = "\<lparr>chat = channel_a_username, raw_text = sol_address_1, entities = None\<rparr>"
  from is_valid_solana_address_total [of "Inl ImportError" sol_address_1 ?ev False]
  have missing: "is_valid_solana_address (Inl ImportError) sol_address_1 = Inr False"
    by auto
  from is_valid_solana_address_total [of "Inr (\<lambda>address. Inl ParseError)" sol_address_1
      ?ev False]
  have undecodable:
    "is_valid_solana_address (Inr (\<lambda>address. Inl ParseError)) sol_address_1 = Inr False"
    by auto
  from is_valid_solana_address_total [of decodes_all sol_address_1 ?ev False]
  have decodable: "is_valid_solana_address decodes_all sol_address_1 = Inr True"
    by (simp add: decodes_all_def)
  from missing undecodable decodable show ?thesis by simp
qed

end
